theory Spec2Isabelle
  imports Main
begin

section \<open>The in-memory revision-ordered object store\<close>

text \<open>
  A shallow embedding of \<^verbatim>\<open>pkg/store/inmemory/simple_memory_store.go\<close>.
  Every public operation of the Go type \<^verbatim>\<open>MemoryStore\<close> becomes a function from
  the store (and the call's arguments) to the store it leaves behind and the call's result:
  an error, or the value written through the \<^verbatim>\<open>out\<close> pointer. The locks are
  not modelled: the functions describe one operation running alone.
\<close>

subsection \<open>Errors\<close>

text \<open>
  One constructor per kind of error the Go code builds. \<open>Panic\<close> stands for the
  run-time panic of an index out of range.
\<close>

datatype error =
    BadRequest string
  | KeyExists string
  | KeyNotFound string
  | InternalError string
  | TooLargeResourceVersion nat nat
  | Conflict string
  | Failure string
  | Panic

subsection \<open>Objects and the heap\<close>

text \<open>
  A \<^verbatim>\<open>runtime.Object\<close> is a pointer to a struct. The struct has value fields (the
  name, the resource version, the deletion timestamp, the rest of the payload) and
  reference-typed fields (slices and maps such as the finalizers), whose contents live in
  heap cells that two structs can share. The model keeps one reference field,
  \<open>finalizers\<close>, as the address of a heap cell holding a list of strings; an address
  beyond the heap reads as the nil slice.

  Modelled from the spec: the object capability of section 6
  (\<^verbatim>\<open>store.ObjectResourceVersion\<close>, \<^verbatim>\<open>store.UpdateObjectResourceVersion\<close>,
  \<^verbatim>\<open>DeepCopyObject\<close>, \<^verbatim>\<open>store.ShouldDeleteSpec\<close>) is not part of the
  sources. The resource version string of an object is kept in parsed form: \<open>Some n\<close>
  for a string that reads as the unsigned number \<open>n\<close>, \<open>None\<close> for a string that does
  not parse.
\<close>

type_synonym addr = nat
type_synonym heap = "string list list"

record object =
  objName :: string
  resourceVersion :: "nat option"
  deletionTimestamp :: bool
  finalizers :: addr
  payload :: string

definition cell :: "heap \<Rightarrow> addr \<Rightarrow> string list" where
  "cell h a = (if a < length h then h ! a else [])"

definition DeepCopyObject :: "heap \<Rightarrow> object \<Rightarrow> object \<times> heap" where
  "DeepCopyObject h ob = (ob\<lparr>finalizers := length h\<rparr>, h @ [cell h (finalizers ob)])"

definition ObjectResourceVersion :: "object \<Rightarrow> error + nat" where
  "ObjectResourceVersion ob =
     (case resourceVersion ob of
        None \<Rightarrow> Inl (Failure ''invalid resource version'')
      | Some n \<Rightarrow> Inr n)"

text \<open>The Go idiom \<^verbatim>\<open>rv, _ := store.ObjectResourceVersion(o)\<close>: the error is dropped
  and the number is zero when there was one.\<close>

definition rvOrZero :: "object \<Rightarrow> nat" where
  "rvOrZero ob = (case ObjectResourceVersion ob of Inl _ \<Rightarrow> 0 | Inr n \<Rightarrow> n)"

definition UpdateObjectResourceVersion :: "object \<Rightarrow> nat \<Rightarrow> object" where
  "UpdateObjectResourceVersion ob r = ob\<lparr>resourceVersion := Some r\<rparr>"

definition ShouldDeleteSpec :: "heap \<Rightarrow> object \<Rightarrow> bool" where
  "ShouldDeleteSpec h ob = (deletionTimestamp ob \<and> cell h (finalizers ob) = [])"

definition zeroObject :: object where
  "zeroObject = \<lparr>objName = [], resourceVersion = Some 0, deletionTimestamp = False,
     finalizers = 0, payload = []\<rparr>"

text \<open>Deep equality (\<^verbatim>\<open>reflect.DeepEqual\<close>): the value fields agree and the
  referenced cells hold the same contents, whatever their addresses.\<close>

definition deepEqual :: "heap \<Rightarrow> object \<Rightarrow> object \<Rightarrow> bool" where
  "deepEqual h a b =
     (objName a = objName b \<and> resourceVersion a = resourceVersion b \<and>
      deletionTimestamp a = deletionTimestamp b \<and> payload a = payload b \<and>
      cell h (finalizers a) = cell h (finalizers b))"

subsection \<open>Slots, events and the store\<close>

record objWithIndex =
  key :: string
  obj :: object
  index :: nat

record objEvent =
  evKey :: string
  evObj :: "object option"
  oldObj :: "object option"
  evRev :: nat
  isDeleted :: bool
  isCreated :: bool

type_synonym objList = "objWithIndex option list"

text \<open>
  \<open>memoryRev\<close> is the package variable \<^verbatim>\<open>_MemoryRev\<close>, an unsigned 64-bit counter;
  \<open>kvs\<close> is the key tree, \<open>kvList\<close> the revision-ordered list of slots (\<open>None\<close> is
  the nil slot), \<open>sent\<close> the events handed to \<^verbatim>\<open>sendEvent\<close> in the order of the
  calls, and \<open>heap\<close> the memory of the process, shared with the callers.
\<close>

record MemoryStore =
  memoryRev :: nat
  kvs :: "string list \<Rightarrow> objWithIndex option"
  kvList :: objList
  sent :: "objEvent list"
  heap :: heap

text \<open>\<^verbatim>\<open>_MemoryRev = uint64(2<<61) + uint64(time.Now().UnixMicro())\<close> and
  \<^verbatim>\<open>NewMemoryStore\<close>; \<open>now\<close> is the clock in microseconds.\<close>

definition NewMemoryStore :: "nat \<Rightarrow> heap \<Rightarrow> MemoryStore" where
  "NewMemoryStore now h =
     \<lparr>memoryRev = (2 * 2 ^ 61 + now) mod 2 ^ 64, kvs = (\<lambda>_. None), kvList = [],
      sent = [], heap = h\<rparr>"

subsection \<open>Keys and the key tree\<close>

text \<open>\<^verbatim>\<open>strings.Split(key, "/")\<close>.\<close>

fun splitKey :: "string \<Rightarrow> string list" where
  "splitKey [] = [[]]"
| "splitKey (c # cs) =
     (if c = CHR ''/'' then [] # splitKey cs
      else (case splitKey cs of
              [] \<Rightarrow> [[c]]
            | w # ws \<Rightarrow> (c # w) # ws))"

text \<open>\<^verbatim>\<open>strings.HasPrefix(s, p)\<close> and \<^verbatim>\<open>strings.HasSuffix(s, p)\<close>.\<close>

definition HasPrefix :: "string \<Rightarrow> string \<Rightarrow> bool" where
  "HasPrefix s p = (take (length p) s = p)"

definition HasSuffix :: "string \<Rightarrow> string \<Rightarrow> bool" where
  "HasSuffix s p = (length p \<le> length s \<and> drop (length s - length p) s = p)"

text \<open>
  Modelled from the spec: the key tree \<^verbatim>\<open>memoryStoreMap\<close> (section 4.A) is not part
  of the sources. \<open>get\<close> looks the segments up; \<open>put\<close> with a non-zero expected revision
  fails with a conflict unless the entry at the key holds an object of exactly that
  revision, and with the expected revision zero writes the entry; \<open>del\<close> removes the entry.
\<close>

definition kvs_get :: "(string list \<Rightarrow> objWithIndex option) \<Rightarrow> string list \<Rightarrow> objWithIndex option" where
  "kvs_get m ks = m ks"

definition kvs_put ::
  "(string list \<Rightarrow> objWithIndex option) \<Rightarrow> string list \<Rightarrow> objWithIndex \<Rightarrow> nat
     \<Rightarrow> error + (string list \<Rightarrow> objWithIndex option)" where
  "kvs_put m ks slot expectedPrevRev =
     (if expectedPrevRev \<noteq> 0 then
        (case m ks of
           None \<Rightarrow> Inl (Conflict ''no entry at the expected revision'')
         | Some cur \<Rightarrow>
             if rvOrZero (obj cur) = expectedPrevRev then Inr (m(ks := Some slot))
             else Inl (Conflict ''entry is at another revision''))
      else Inr (m(ks := Some slot)))"

definition kvs_del ::
  "(string list \<Rightarrow> objWithIndex option) \<Rightarrow> string list
     \<Rightarrow> error + (string list \<Rightarrow> objWithIndex option)" where
  "kvs_del m ks = Inr (m(ks := None))"

subsection \<open>Binary search in the revision-ordered list\<close>

text \<open>
  Go's \<^verbatim>\<open>sort.Search(n, f)\<close>:
  \<^verbatim>\<open>
  i, j := 0, n
  for i < j {
      h := int(uint(i+j) >> 1)
      if !f(h) { i = h + 1 } else { j = h }
  }
  return i
  \<close>
\<close>

function searchLoop :: "(nat \<Rightarrow> bool) \<Rightarrow> nat \<Rightarrow> nat \<Rightarrow> nat" where
  "searchLoop f i j =
     (if i < j then
        (let h = (i + j) div 2
         in if \<not> f h then searchLoop f (h + 1) j else searchLoop f i h)
      else i)"
  by pat_completeness auto
termination
  by (relation "measure (\<lambda>(f, i, j). j - i)") auto

declare searchLoop.simps [simp del]

definition Search :: "nat \<Rightarrow> (nat \<Rightarrow> bool) \<Rightarrow> nat" where
  "Search n f = searchLoop f 0 n"

text \<open>
  \<^verbatim>\<open>binarySearchInObjList\<close>: the predicate handed to \<^verbatim>\<open>sort.Search\<close> is false
  on a nil slot and otherwise compares the slot's revision with \<open>rv\<close>.
\<close>

definition searchPred :: "objList \<Rightarrow> nat \<Rightarrow> nat \<Rightarrow> bool" where
  "searchPred l rv i =
     (case l ! (i mod length l) of
        None \<Rightarrow> False
      | Some ob \<Rightarrow> rvOrZero (obj ob) \<ge> rv)"

definition binarySearchInObjList :: "objList \<Rightarrow> nat \<Rightarrow> nat" where
  "binarySearchInObjList l rv = Search (length l) (searchPred l rv)"

subsection \<open>Revisions, slots and events\<close>

text \<open>\<^verbatim>\<open>reserveRevAndSlot\<close>: \<^verbatim>\<open>atomic.AddUint64(&_MemoryRev, 1)\<close> wraps around at
  \<open>2 ^ 64\<close>; the reserved slot is a nil slot appended to the list.\<close>

definition reserveRevAndSlot :: "MemoryStore \<Rightarrow> nat \<times> nat \<times> MemoryStore" where
  "reserveRevAndSlot ms =
     (let r = (memoryRev ms + 1) mod 2 ^ 64;
          uindex = length (kvList ms)
      in (r, uindex, ms\<lparr>memoryRev := r, kvList := kvList ms @ [None]\<rparr>))"

text \<open>The assignment \<^verbatim>\<open>ms.kvList[i] = v\<close>, which panics when \<open>i\<close> is out of range.\<close>

definition setSlot :: "MemoryStore \<Rightarrow> nat \<Rightarrow> objWithIndex option \<Rightarrow> MemoryStore option" where
  "setSlot ms i v =
     (if i < length (kvList ms) then Some (ms\<lparr>kvList := (kvList ms)[i := v]\<rparr>) else None)"

text \<open>\<^verbatim>\<open>sendEvent\<close> hands the event to every live watcher; the model records it.\<close>

definition sendEvent :: "MemoryStore \<Rightarrow> objEvent \<Rightarrow> MemoryStore" where
  "sendEvent ms e = ms\<lparr>sent := sent ms @ [e]\<rparr>"

subsection \<open>Resource versions at the boundary\<close>

text \<open>
  Modelled from the spec: \<^verbatim>\<open>store.ParseResourceVersion\<close> is not part of the sources.
  Section 6: an unsigned 64-bit integer, decimal-encoded as a string; the empty string and
  \<^verbatim>\<open>"0"\<close> read as zero.
\<close>

fun parseDigits :: "nat \<Rightarrow> string \<Rightarrow> nat option" where
  "parseDigits acc [] = Some acc"
| "parseDigits acc (c # cs) =
     (let d = (of_char c :: nat)
      in if 48 \<le> d \<and> d \<le> 57 then parseDigits (acc * 10 + (d - 48)) cs else None)"

definition ParseResourceVersion :: "string \<Rightarrow> error + nat" where
  "ParseResourceVersion s =
     (if s = [] \<or> s = ''0'' then Inr 0
      else (case parseDigits 0 s of
              None \<Rightarrow> Inl (Failure ''invalid syntax'')
            | Some n \<Rightarrow> if n < 2 ^ 64 then Inr n else Inl (Failure ''value out of range'')))"

definition validateMinimumResourceVersion :: "string \<Rightarrow> nat \<Rightarrow> error option" where
  "validateMinimumResourceVersion minimumResourceVersion actualRevision =
     (if minimumResourceVersion = [] then None
      else (case ParseResourceVersion minimumResourceVersion of
              Inl e \<Rightarrow> Some (BadRequest ''invalid resource version'')
            | Inr minimumRV \<Rightarrow>
                if minimumRV > actualRevision
                then Some (TooLargeResourceVersion minimumRV actualRevision)
                else None))"

subsection \<open>Create, Delete and Get\<close>

text \<open>
  The caller's functions are arguments: \<open>preconditions\<close> is
  \<^verbatim>\<open>preconditions.Check\<close> (\<open>None\<close> for a nil pointer), \<open>validateDeletion\<close> the
  validation callback, and \<open>PrepareObjectForStorage\<close> the function of that name of the
  \<^verbatim>\<open>store\<close> package, which is not part of the sources.
\<close>

type_synonym preconds = "(string \<Rightarrow> object \<Rightarrow> error option) option"
type_synonym validateFunc = "(object \<Rightarrow> error option) option"

definition checkPreconditions :: "preconds \<Rightarrow> string \<Rightarrow> object \<Rightarrow> error option" where
  "checkPreconditions p k ob = (case p of None \<Rightarrow> None | Some c \<Rightarrow> c k ob)"

definition runValidate :: "validateFunc \<Rightarrow> object \<Rightarrow> error option" where
  "runValidate v ob = (case v of None \<Rightarrow> None | Some f \<Rightarrow> f ob)"

text \<open>The result of an operation: the store as the call leaves it, and either the error
  or the object that \<^verbatim>\<open>out\<close> points to when the call returns nil.\<close>

type_synonym result = "MemoryStore \<times> (error + object)"

text \<open>
  The statements that end every creating path (\<^verbatim>\<open>Create\<close> lines 163 to 178, and
  the same lines in the create branches of \<^verbatim>\<open>CreateOrUpdate\<close>, \<^verbatim>\<open>GetOrCreate\<close>
  and \<^verbatim>\<open>CreateOrReplace\<close>): put the slot in the key tree with expected revision 0,
  write it into its reserved place of the list, assign \<open>outObj\<close> through \<^verbatim>\<open>out\<close>,
  and send the Created event with a deep copy of it.
\<close>

definition commitCreate ::
  "MemoryStore \<Rightarrow> string \<Rightarrow> objWithIndex \<Rightarrow> object \<Rightarrow> nat \<Rightarrow> result" where
  "commitCreate ms k objWi outObj r =
     (case kvs_put (kvs ms) (splitKey k) objWi 0 of
        Inl e \<Rightarrow> (ms, Inl e)
      | Inr m \<Rightarrow>
          (case setSlot (ms\<lparr>kvs := m\<rparr>) (index objWi) (Some objWi) of
             None \<Rightarrow> (ms\<lparr>kvs := m\<rparr>, Inl Panic)
           | Some ms1 \<Rightarrow>
               (case DeepCopyObject (heap ms1) outObj of
                  (ecp, h2) \<Rightarrow>
                    (sendEvent (ms1\<lparr>heap := h2\<rparr>)
                       \<lparr>evKey = k, evObj = Some ecp, oldObj = None,
                        evRev = r, isDeleted = False, isCreated = True\<rparr>,
                     Inr outObj))))"

definition Create ::
  "(object \<Rightarrow> error + object) \<Rightarrow> MemoryStore \<Rightarrow> string \<Rightarrow> object \<Rightarrow> result" where
  "Create PrepareObjectForStorage ms k ob =
     (case PrepareObjectForStorage ob of
        Inl e \<Rightarrow> (ms, Inl (Failure ''PrepareObjectForStorage failed''))
      | Inr ob0 \<Rightarrow>
          (case kvs_get (kvs ms) (splitKey k) of
             Some existing \<Rightarrow> (ms, Inl (KeyExists k))
           | None \<Rightarrow>
               (case reserveRevAndSlot ms of
                  (r, idx, ms1) \<Rightarrow>
                    (let ob1 = UpdateObjectResourceVersion ob0 r in
                     case DeepCopyObject (heap ms1) ob1 of
                       (cp, h1) \<Rightarrow>
                         commitCreate (ms1\<lparr>heap := h1\<rparr>) k
                           \<lparr>key = k, obj = cp, index = idx\<rparr> ob1 r))))"

text \<open>The closure inside \<^verbatim>\<open>Delete\<close> that checks the current object and takes a
  revision for the deletion.\<close>

definition deleteRev ::
  "MemoryStore \<Rightarrow> string \<Rightarrow> objWithIndex \<Rightarrow> preconds \<Rightarrow> validateFunc
     \<Rightarrow> MemoryStore \<times> (error + nat)" where
  "deleteRev ms k existingObj preconditions validateDeletion =
     (case DeepCopyObject (heap ms) (obj existingObj) of
        (currObj, h1) \<Rightarrow>
          (let ms1 = ms\<lparr>heap := h1\<rparr> in
           case ObjectResourceVersion currObj of
             Inl e \<Rightarrow> (ms1, Inl (InternalError ''resource version''))
           | Inr _ \<Rightarrow>
               (case checkPreconditions preconditions k currObj of
                  Some e \<Rightarrow> (ms1, Inl e)
                | None \<Rightarrow>
                    (case runValidate validateDeletion currObj of
                       Some e \<Rightarrow> (ms1, Inl e)
                     | None \<Rightarrow>
                         (let r = (memoryRev ms1 + 1) mod 2 ^ 64
                          in (ms1\<lparr>memoryRev := r\<rparr>, Inr r))))))"

text \<open>
  \<^verbatim>\<open>Delete\<close>. The statement \<^verbatim>\<open>out = existingObj.obj.DeepCopyObject()\<close> assigns
  the parameter \<open>out\<close>, a local variable (\<open>outLocal\<close> below); the object the caller's
  pointer refers to is the argument \<open>out\<close>, returned as it came.
\<close>

definition Delete ::
  "MemoryStore \<Rightarrow> string \<Rightarrow> object \<Rightarrow> preconds \<Rightarrow> validateFunc \<Rightarrow> object option \<Rightarrow> result" where
  "Delete ms k out preconditions validateDeletion cachedExistingObject =
     (case (case cachedExistingObject of
              None \<Rightarrow> Inr 0
            | Some c \<Rightarrow> ObjectResourceVersion c) of
        Inl e \<Rightarrow> (ms, Inl (InternalError ''resource version''))
      | Inr _ \<Rightarrow>
          (let keys = splitKey k in
           case kvs_get (kvs ms) keys of
             None \<Rightarrow> (ms, Inl (KeyNotFound k))
           | Some existingObj \<Rightarrow>
               (case deleteRev ms k existingObj preconditions validateDeletion of
                  (ms1, Inl e) \<Rightarrow> (ms1, Inl e)
                | (ms1, Inr r) \<Rightarrow>
                    (case kvs_del (kvs ms1) keys of
                       Inl e \<Rightarrow> (ms1, Inl e)
                     | Inr m \<Rightarrow>
                         (case setSlot (ms1\<lparr>kvs := m\<rparr>) (index existingObj) None of
                            None \<Rightarrow> (ms1\<lparr>kvs := m\<rparr>, Inl Panic)
                          | Some ms2 \<Rightarrow>
                              (case DeepCopyObject (heap ms2) (obj existingObj) of
                                 (outLocal, h2) \<Rightarrow>
                                   (case DeepCopyObject h2 outLocal of
                                      (old, h3) \<Rightarrow>
                                        (sendEvent (ms2\<lparr>heap := h3\<rparr>)
                                           \<lparr>evKey = k, evObj = None, oldObj = Some old,
                                            evRev = r, isDeleted = True, isCreated = False\<rparr>,
                                         Inr out))))))))"

record GetOptions =
  IgnoreNotFound :: bool
  ResourceVersion :: string

text \<open>
  \<^verbatim>\<open>Get\<close>. The deep copy \<open>currObj\<close> is used to read the revision; what is assigned
  through \<^verbatim>\<open>out\<close> is \<^verbatim>\<open>reflect.ValueOf(existingObj.obj).Elem()\<close>, the struct of the
  stored object itself, references included.
\<close>

definition Get :: "MemoryStore \<Rightarrow> string \<Rightarrow> GetOptions \<Rightarrow> result" where
  "Get ms k opts =
     (let keys = splitKey k in
      case kvs_get (kvs ms) keys of
        None \<Rightarrow>
          if IgnoreNotFound opts then (ms, Inr zeroObject) else (ms, Inl (KeyNotFound k))
      | Some existingObj \<Rightarrow>
          (case DeepCopyObject (heap ms) (obj existingObj) of
             (currObj, h1) \<Rightarrow>
               (let ms1 = ms\<lparr>heap := h1\<rparr> in
                case ObjectResourceVersion currObj of
                  Inl e \<Rightarrow> (ms1, Inl (InternalError ''resource version''))
                | Inr currObjRv \<Rightarrow>
                    (case validateMinimumResourceVersion (ResourceVersion opts) currObjRv of
                       Some e \<Rightarrow> (ms1, Inl e)
                     | None \<Rightarrow> (ms1, Inr (obj existingObj))))))"

subsection \<open>The updating operations\<close>

text \<open>
  The user's update function \<^verbatim>\<open>tryUpdate\<close> and the merge function receive an object
  and may allocate: they take the heap and return the new object with the heap they leave.
  \<^verbatim>\<open>store.UpdateState(currObj, tryUpdate)\<close> is the call of \<open>tryUpdate\<close>.
\<close>

type_synonym updateFunc = "object \<Rightarrow> heap \<Rightarrow> error + (object \<times> heap)"
type_synonym mergeFunc = "(object \<Rightarrow> object \<Rightarrow> heap \<Rightarrow> error + (object \<times> heap)) option"

text \<open>
  The statements that end every updating path (\<^verbatim>\<open>GuaranteedUpdate\<close> lines 492 to
  508, and the same lines in the update branches of \<^verbatim>\<open>CreateOrUpdate\<close> and
  \<^verbatim>\<open>CreateOrReplace\<close>): put the new slot with the current revision expected, clear
  the old slot, fill the new one, assign \<open>outObj\<close> through \<^verbatim>\<open>out\<close>, and send the
  event with the old object.
\<close>

definition commitUpdate ::
  "MemoryStore \<Rightarrow> string \<Rightarrow> objWithIndex \<Rightarrow> objWithIndex \<Rightarrow> nat \<Rightarrow> object \<Rightarrow> object \<Rightarrow> nat
     \<Rightarrow> result" where
  "commitUpdate ms k curObjWi newObjWi currRv outObj currObj r =
     (case kvs_put (kvs ms) (splitKey k) newObjWi currRv of
        Inl e \<Rightarrow> (ms, Inl e)
      | Inr m \<Rightarrow>
          (case setSlot (ms\<lparr>kvs := m\<rparr>) (index curObjWi) None of
             None \<Rightarrow> (ms\<lparr>kvs := m\<rparr>, Inl Panic)
           | Some ms1 \<Rightarrow>
               (case setSlot ms1 (index newObjWi) (Some newObjWi) of
                  None \<Rightarrow> (ms1, Inl Panic)
                | Some ms2 \<Rightarrow>
                    (case DeepCopyObject (heap ms2) outObj of
                       (ecp, h2) \<Rightarrow>
                         (sendEvent (ms2\<lparr>heap := h2\<rparr>)
                            \<lparr>evKey = k, evObj = Some ecp, oldObj = Some currObj,
                             evRev = r, isDeleted = False, isCreated = False\<rparr>,
                          Inr outObj)))))"

definition GuaranteedUpdate ::
  "MemoryStore \<Rightarrow> string \<Rightarrow> bool \<Rightarrow> preconds \<Rightarrow> updateFunc \<Rightarrow> object option \<Rightarrow> result" where
  "GuaranteedUpdate ms k ignoreNotFound preconditions tryUpdate cachedExistingObject =
     (case kvs_get (kvs ms) (splitKey k) of
        None \<Rightarrow>
          if ignoreNotFound then (ms, Inr zeroObject) else (ms, Inl (KeyNotFound k))
      | Some curObjWi \<Rightarrow>
          (case DeepCopyObject (heap ms) (obj curObjWi) of
             (currObj, h1) \<Rightarrow>
               (let ms1 = ms\<lparr>heap := h1\<rparr> in
                case ObjectResourceVersion currObj of
                  Inl e \<Rightarrow> (ms1, Inl (InternalError ''resource version''))
                | Inr currRv \<Rightarrow>
                    (case (case cachedExistingObject of
                             None \<Rightarrow> Inr 0
                           | Some c \<Rightarrow> ObjectResourceVersion c) of
                       Inl e \<Rightarrow> (ms1, Inl (InternalError ''resource version''))
                     | Inr _ \<Rightarrow>
                         (case checkPreconditions preconditions k currObj of
                            Some e \<Rightarrow> (ms1, Inl e)
                          | None \<Rightarrow>
                              (case tryUpdate currObj (heap ms1) of
                                 Inl e \<Rightarrow> (ms1, Inl e)
                               | Inr (ret, h2) \<Rightarrow>
                                   (case reserveRevAndSlot (ms1\<lparr>heap := h2\<rparr>) of
                                      (r, idx, ms2) \<Rightarrow>
                                        (let ret1 = UpdateObjectResourceVersion ret r in
                                         case DeepCopyObject (heap ms2) ret1 of
                                           (cp, h3) \<Rightarrow>
                                             commitUpdate (ms2\<lparr>heap := h3\<rparr>) k curObjWi
                                               \<lparr>key = k, obj = cp, index = idx\<rparr>
                                               currRv ret1 currObj r))))))))"

definition CreateOrUpdate ::
  "MemoryStore \<Rightarrow> string \<Rightarrow> object \<Rightarrow> mergeFunc \<Rightarrow> result" where
  "CreateOrUpdate ms k ob mergeFunc =
     (case kvs_get (kvs ms) (splitKey k) of
        None \<Rightarrow>
          (case DeepCopyObject (heap ms) ob of
             (newObj0, h1) \<Rightarrow>
               (case reserveRevAndSlot (ms\<lparr>heap := h1\<rparr>) of
                  (r, idx, ms1) \<Rightarrow>
                    (let newObj = UpdateObjectResourceVersion newObj0 r in
                     case DeepCopyObject (heap ms1) newObj of
                       (cp, h2) \<Rightarrow>
                         commitCreate (ms1\<lparr>heap := h2\<rparr>) k
                           \<lparr>key = k, obj = cp, index = idx\<rparr> newObj r)))
      | Some curObjWi \<Rightarrow>
          (case DeepCopyObject (heap ms) (obj curObjWi) of
             (currObj, h1) \<Rightarrow>
               (let ms1 = ms\<lparr>heap := h1\<rparr> in
                case ObjectResourceVersion currObj of
                  Inl e \<Rightarrow> (ms1, Inl (InternalError ''resource version''))
                | Inr currRv \<Rightarrow>
                    (case DeepCopyObject (heap ms1) ob of
                       (newObj0, h2) \<Rightarrow>
                         (let ms2 = ms1\<lparr>heap := h2\<rparr> in
                          case mergeFunc of
                            None \<Rightarrow> (ms2, Inl (Failure ''Do not have merge function''))
                          | Some mf \<Rightarrow>
                              (case mf currObj newObj0 (heap ms2) of
                                 Inl e \<Rightarrow> (ms2, Inl e)
                               | Inr (newObj1, h3) \<Rightarrow>
                                   (case reserveRevAndSlot (ms2\<lparr>heap := h3\<rparr>) of
                                      (r, idx, ms3) \<Rightarrow>
                                        (let newObj = UpdateObjectResourceVersion newObj1 r in
                                         commitUpdate ms3 k curObjWi
                                           \<lparr>key = k, obj = newObj, index = idx\<rparr>
                                           currRv newObj currObj r))))))))"

definition GetOrCreate :: "MemoryStore \<Rightarrow> string \<Rightarrow> object \<Rightarrow> result" where
  "GetOrCreate ms k objToCreate =
     (case kvs_get (kvs ms) (splitKey k) of
        None \<Rightarrow>
          (case DeepCopyObject (heap ms) objToCreate of
             (newObj0, h1) \<Rightarrow>
               (case reserveRevAndSlot (ms\<lparr>heap := h1\<rparr>) of
                  (r, idx, ms1) \<Rightarrow>
                    (let newObj = UpdateObjectResourceVersion newObj0 r in
                     case DeepCopyObject (heap ms1) newObj of
                       (cp, h2) \<Rightarrow>
                         commitCreate (ms1\<lparr>heap := h2\<rparr>) k
                           \<lparr>key = k, obj = cp, index = idx\<rparr> newObj r)))
      | Some curObjWi \<Rightarrow>
          (case DeepCopyObject (heap ms) (obj curObjWi) of
             (currObj, h1) \<Rightarrow> (ms\<lparr>heap := h1\<rparr>, Inr currObj)))"

definition CreateOrReplace :: "MemoryStore \<Rightarrow> string \<Rightarrow> object \<Rightarrow> result" where
  "CreateOrReplace ms k objToCreate =
     (case DeepCopyObject (heap ms) objToCreate of
        (newObj0, h1) \<Rightarrow>
          (case reserveRevAndSlot (ms\<lparr>heap := h1\<rparr>) of
             (r, idx, ms1) \<Rightarrow>
               (let newObj = UpdateObjectResourceVersion newObj0 r in
                case DeepCopyObject (heap ms1) newObj of
                  (cp, h2) \<Rightarrow>
                    (let newObjWi = \<lparr>key = k, obj = cp, index = idx\<rparr>;
                         ms2 = ms1\<lparr>heap := h2\<rparr>
                     in case kvs_get (kvs ms2) (splitKey k) of
                          None \<Rightarrow> commitCreate ms2 k newObjWi newObj r
                        | Some curObjWi \<Rightarrow>
                            (case DeepCopyObject (heap ms2) (obj curObjWi) of
                               (currObj, h3) \<Rightarrow>
                                 (let ms3 = ms2\<lparr>heap := h3\<rparr> in
                                  case ObjectResourceVersion currObj of
                                    Inl e \<Rightarrow> (ms3, Inl (InternalError ''resource version''))
                                  | Inr currRv \<Rightarrow>
                                      commitUpdate ms3 k curObjWi newObjWi currRv newObj
                                        currObj r))))))"

text \<open>
  \<^verbatim>\<open>EnsureUpdateAndDelete\<close>. \<open>GetTryUpdateFunc\<close> is the function of that name of the
  \<^verbatim>\<open>store\<close> package, which is not part of the sources. The result of the inner
  \<^verbatim>\<open>Delete\<close> is assigned to \<^verbatim>\<open>err\<close> and the function returns nil.
\<close>

definition EnsureUpdateAndDelete ::
  "(object \<Rightarrow> updateFunc) \<Rightarrow> MemoryStore \<Rightarrow> string \<Rightarrow> bool \<Rightarrow> preconds \<Rightarrow> object \<Rightarrow> result" where
  "EnsureUpdateAndDelete GetTryUpdateFunc ms k ignoreNotFound preconditions updatedObj =
     (case GuaranteedUpdate ms k ignoreNotFound preconditions (GetTryUpdateFunc updatedObj) None of
        (ms1, Inl e) \<Rightarrow> (ms1, Inl e)
      | (ms1, Inr output) \<Rightarrow>
          if ShouldDeleteSpec (heap ms1) output then
            (case Delete ms1 k output preconditions (Some (\<lambda>_. None)) (Some output) of
               (ms2, err) \<Rightarrow> (ms2, Inr output))
          else (ms1, Inr output))"

subsection \<open>GetList\<close>

text \<open>
  The selection predicate carries the page limit, the continue token, whether it is empty
  (\<^verbatim>\<open>pred.Empty()\<close>) and the test an object must pass. The match mode is the string
  \<^verbatim>\<open>opts.ResourceVersionMatch\<close>. The list object holds the items and the list
  metadata that \<^verbatim>\<open>store.UpdateList\<close> sets.
\<close>

record SelectionPredicate =
  Limit :: int
  Continue :: string
  isEmpty :: bool
  Matches :: "object \<Rightarrow> bool"

record ListOptions =
  listResourceVersion :: string
  ResourceVersionMatch :: string
  Predicate :: SelectionPredicate
  Recursive :: bool

record listObject =
  Items :: "object list"
  ListRV :: nat
  ContinueToken :: string
  RemainingItemCount :: "int option"

text \<open>
  Modelled from the spec: \<^verbatim>\<open>store.UpdateList\<close> and \<^verbatim>\<open>store.AppendListItem\<close> are
  not part of the sources. Section 4.F: items are emitted through the provided predicate;
  the list carries the list-level revision, the continue token and the remaining item count.
\<close>

definition UpdateList :: "listObject \<Rightarrow> nat \<Rightarrow> string \<Rightarrow> int option \<Rightarrow> listObject" where
  "UpdateList l rv c remaining = l\<lparr>ListRV := rv, ContinueToken := c, RemainingItemCount := remaining\<rparr>"

definition AppendListItem :: "object list \<Rightarrow> object \<Rightarrow> nat \<Rightarrow> SelectionPredicate \<Rightarrow> object list" where
  "AppendListItem items ob rv pred = (if Matches pred ob then items @ [ob] else items)"

text \<open>The \<^verbatim>\<open>switch match\<close> of the list walk (lines 384 to 400): whether an object of
  revision \<open>rv\<close> is appended, or the error of an unknown mode.\<close>

definition listMatchRule :: "string \<Rightarrow> nat \<Rightarrow> nat \<Rightarrow> error + bool" where
  "listMatchRule match rv withRV =
     (if match = ''NotOlderThan'' then Inr (rv \<ge> withRV)
      else if match = ''Exact'' then Inr (rv > withRV)
      else if match = [] then Inr (rv > withRV)
      else Inl (Failure ''unknown ResourceVersionMatch value''))"

text \<open>The \<^verbatim>\<open>switch match\<close> of \<^verbatim>\<open>getSingleObjectAsList\<close> (lines 913 to 929).\<close>

definition singleMatchRule :: "string \<Rightarrow> nat \<Rightarrow> nat \<Rightarrow> error + bool" where
  "singleMatchRule match rv fromRV =
     (if match = ''NotOlderThan'' then Inr (rv \<ge> fromRV)
      else if match = ''Exact'' then Inr (rv = fromRV)
      else if match = [] then Inr (rv > fromRV)
      else Inl (Failure ''unknown ResourceVersionMatch value''))"

text \<open>The parse of \<^verbatim>\<open>opts.ResourceVersion\<close> into the optional \<^verbatim>\<open>fromRV\<close>.\<close>

definition parseFromRV :: "string \<Rightarrow> error + nat option" where
  "parseFromRV version =
     (if length version > 0 then
        (case ParseResourceVersion version of
           Inl e \<Rightarrow> Inl (BadRequest ''invalid resource version'')
         | Inr parsedRV \<Rightarrow> Inr (Some parsedRV))
      else Inr None)"

definition getSingleObjectAsList ::
  "MemoryStore \<Rightarrow> string \<Rightarrow> ListOptions \<Rightarrow> listObject \<Rightarrow> error + listObject" where
  "getSingleObjectAsList ms k opts listObj =
     (let match = ResourceVersionMatch opts; pred = Predicate opts in
      case parseFromRV (listResourceVersion opts) of
        Inl e \<Rightarrow> Inl e
      | Inr fromRV \<Rightarrow>
          (case kvs_get (kvs ms) (splitKey k) of
             None \<Rightarrow> Inr (UpdateList listObj (memoryRev ms) [] None)
           | Some ob \<Rightarrow>
               (case ObjectResourceVersion (obj ob) of
                  Inl e \<Rightarrow> Inl e
                | Inr rv \<Rightarrow>
                    (case fromRV of
                       Some f \<Rightarrow>
                         (case singleMatchRule match rv f of
                            Inl e \<Rightarrow> Inl e
                          | Inr inc \<Rightarrow>
                              Inr (UpdateList
                                (listObj\<lparr>Items :=
                                   (if inc then AppendListItem (Items listObj) (obj ob) rv pred
                                    else Items listObj)\<rparr>) rv [] None))
                     | None \<Rightarrow>
                         Inr (UpdateList
                           (listObj\<lparr>Items := AppendListItem (Items listObj) (obj ob) rv pred\<rparr>)
                           rv [] None)))))"

text \<open>
  The first part of the recursive \<^verbatim>\<open>GetList\<close> (lines 307 to 358): from the options
  to \<^verbatim>\<open>withRV\<close>, \<^verbatim>\<open>returnedRV\<close> and \<^verbatim>\<open>searchingIndex\<close>. \<open>DecodeContinue\<close> is
  the codec of the continue token, which is not part of the sources; it returns the last
  key and a signed revision.
\<close>

definition resolveStart ::
  "(string \<Rightarrow> string \<Rightarrow> error + (string \<times> int)) \<Rightarrow> MemoryStore \<Rightarrow> string \<Rightarrow> ListOptions
     \<Rightarrow> error + (nat \<times> nat \<times> nat)" where
  "resolveStart DecodeContinue ms keyPrefix opts =
     (let version = listResourceVersion opts; pred = Predicate opts in
      case parseFromRV version of
        Inl e \<Rightarrow> Inl e
      | Inr fromRV \<Rightarrow>
          if length (Continue pred) > 0 then
            (if length version > 0 \<and> version \<noteq> ''0'' then
               Inl (BadRequest ''specifying resource version is not allowed when using continue'')
             else
               (case DecodeContinue (Continue pred) keyPrefix of
                  Inl e \<Rightarrow> Inl (BadRequest ''invalid continue token'')
                | Inr (continueKey, continueRV) \<Rightarrow>
                    (case (if continueRV > 0 then Inr (nat continueRV, nat continueRV)
                           else if continueRV = 0 then
                             Inl (BadRequest
                               ''0 continue resource version is not allowed when using continue'')
                           else Inr (0, 1)) of
                       Inl e \<Rightarrow> Inl e
                     | Inr (withRV, returnedRV) \<Rightarrow>
                         (case kvs_get (kvs ms) (splitKey continueKey) of
                            Some ob \<Rightarrow>
                              if rvOrZero (obj ob) = withRV
                              then Inr (withRV, returnedRV, index ob)
                              else Inr (withRV, returnedRV,
                                        binarySearchInObjList (kvList ms) withRV)
                          | None \<Rightarrow> Inr (withRV, returnedRV, 0)))))
          else
            (case fromRV of
               Some n \<Rightarrow>
                 if n > 0 then Inr (n, n, binarySearchInObjList (kvList ms) n)
                 else Inr (0, 1, 0)
             | None \<Rightarrow> Inr (0, 1, 0)))"

text \<open>
  The loop over the list (lines 375 to 410), from index \<open>i\<close> with the items collected so
  far and the last key and revision seen. It returns the items, \<^verbatim>\<open>lastKey\<close>,
  \<^verbatim>\<open>lastRev\<close>, \<^verbatim>\<open>hasMore\<close> and \<^verbatim>\<open>remainingItemCount\<close>. A slot whose key lacks the
  prefix jumps to the next index (\<^verbatim>\<open>continue\<close>) past the test of the limit.
\<close>

definition stopAt :: "objList \<Rightarrow> nat \<Rightarrow> bool \<times> int" where
  "stopAt l i =
     (if i < length l - 1 then (True, int (length l - 1 - i)) else (False, 0))"

function walk ::
  "objList \<Rightarrow> string \<Rightarrow> string \<Rightarrow> nat \<Rightarrow> SelectionPredicate \<Rightarrow> int \<Rightarrow> nat
     \<Rightarrow> object list \<Rightarrow> string \<Rightarrow> nat
     \<Rightarrow> error + (object list \<times> string \<times> nat \<times> bool \<times> int)" where
  "walk l keyPrefix match withRV pred limit i items lastKey lastRev =
     (if i < length l then
        (case l ! i of
           None \<Rightarrow>
             if int (length items) = limit
             then Inr (items, lastKey, lastRev, stopAt l i)
             else walk l keyPrefix match withRV pred limit (i + 1) items lastKey lastRev
         | Some v \<Rightarrow>
             (let rv = rvOrZero (obj v) in
              if \<not> HasPrefix (key v) keyPrefix
              then walk l keyPrefix match withRV pred limit (i + 1) items (key v) rv
              else
                (case listMatchRule match rv withRV of
                   Inl e \<Rightarrow> Inl e
                 | Inr inc \<Rightarrow>
                     (let items1 = (if inc then AppendListItem items (obj v) rv pred else items)
                      in if int (length items1) = limit
                         then Inr (items1, key v, rv, stopAt l i)
                         else walk l keyPrefix match withRV pred limit (i + 1) items1 (key v) rv))))
      else Inr (items, lastKey, lastRev, False, 0))"
  by pat_completeness auto
termination
  by (relation "measure (\<lambda>(l, keyPrefix, match, withRV, pred, limit, i, items, lastKey, lastRev).
        length l - i)") auto

declare walk.simps [simp del]

text \<open>The page limit (lines 366 to 369): \<^verbatim>\<open>math.MaxInt64\<close> unless the predicate has
  a positive limit.\<close>

definition pageLimit :: "SelectionPredicate \<Rightarrow> int" where
  "pageLimit pred = (if Limit pred > 0 then Limit pred else 2 ^ 63 - 1)"

text \<open>
  The end of \<^verbatim>\<open>GetList\<close> (lines 412 to 425), from what the loop returned: with
  \<^verbatim>\<open>hasMore\<close> the continue token is encoded from \<^verbatim>\<open>lastKey\<close> and \<^verbatim>\<open>lastRev\<close>,
  and the remaining item count is reported when the predicate is empty.
  \<open>EncodeContinue\<close> is the codec of the continue token, not part of the sources.
\<close>

definition finishList ::
  "(string \<Rightarrow> string \<Rightarrow> nat \<Rightarrow> error + string) \<Rightarrow> string \<Rightarrow> SelectionPredicate \<Rightarrow> nat \<Rightarrow> listObject
     \<Rightarrow> error + (object list \<times> string \<times> nat \<times> bool \<times> int) \<Rightarrow> error + listObject" where
  "finishList EncodeContinue keyPrefix pred returnedRV listObj w =
     (case w of
        Inl e \<Rightarrow> Inl e
      | Inr (items, lastKey, lastRev, hasMore, remainingItemCount) \<Rightarrow>
          (let l1 = listObj\<lparr>Items := items\<rparr> in
           if hasMore then
             (case EncodeContinue lastKey keyPrefix lastRev of
                Inl e \<Rightarrow> Inl e
              | Inr continueToken \<Rightarrow>
                  if isEmpty pred
                  then Inr (UpdateList l1 returnedRV continueToken (Some remainingItemCount))
                  else Inr (UpdateList l1 returnedRV continueToken None))
           else Inr (UpdateList l1 returnedRV [] None)))"

text \<open>\<^verbatim>\<open>GetList\<close>: the key prefix, the start, the empty answer when the start is
  beyond the list, the loop and the end.\<close>

definition listPrefix :: "string \<Rightarrow> string" where
  "listPrefix k = (if \<not> HasSuffix k ''/'' then k @ ''/'' else k)"

definition GetList ::
  "(string \<Rightarrow> string \<Rightarrow> error + (string \<times> int)) \<Rightarrow> (string \<Rightarrow> string \<Rightarrow> nat \<Rightarrow> error + string)
     \<Rightarrow> MemoryStore \<Rightarrow> string \<Rightarrow> ListOptions \<Rightarrow> listObject \<Rightarrow> error + listObject" where
  "GetList DecodeContinue EncodeContinue ms k opts listObj =
     (if \<not> Recursive opts then getSingleObjectAsList ms k opts listObj
      else
        (let keyPrefix = listPrefix k;
             match = ResourceVersionMatch opts;
             pred = Predicate opts
         in case resolveStart DecodeContinue ms keyPrefix opts of
              Inl e \<Rightarrow> Inl e
            | Inr (withRV, returnedRV, searchingIndex) \<Rightarrow>
                if searchingIndex \<ge> length (kvList ms)
                then Inr (UpdateList listObj returnedRV [] None)
                else
                  finishList EncodeContinue keyPrefix pred returnedRV listObj
                    (walk (kvList ms) keyPrefix match withRV pred (pageLimit pred)
                       searchingIndex (Items listObj) [] withRV)))"

subsection \<open>Sequences of mutations\<close>

text \<open>A mutation is a call of one of the mutating operations with its arguments; a run
  applies the calls one after the other, each on the store the one before left, whether
  it returned an error or not.\<close>

datatype mutation =
    MCreate "object \<Rightarrow> error + object" string object
  | MDelete string object preconds validateFunc "object option"
  | MGuaranteedUpdate string bool preconds updateFunc "object option"
  | MCreateOrUpdate string object mergeFunc
  | MCreateOrReplace string object
  | MGetOrCreate string object

fun applyMutation :: "MemoryStore \<Rightarrow> mutation \<Rightarrow> result" where
  "applyMutation ms (MCreate p k ob) = Create p ms k ob"
| "applyMutation ms (MDelete k out pre val cached) = Delete ms k out pre val cached"
| "applyMutation ms (MGuaranteedUpdate k ignoreNotFound pre upd cached) =
     GuaranteedUpdate ms k ignoreNotFound pre upd cached"
| "applyMutation ms (MCreateOrUpdate k ob mf) = CreateOrUpdate ms k ob mf"
| "applyMutation ms (MCreateOrReplace k ob) = CreateOrReplace ms k ob"
| "applyMutation ms (MGetOrCreate k ob) = GetOrCreate ms k ob"

fun run :: "MemoryStore \<Rightarrow> mutation list \<Rightarrow> MemoryStore" where
  "run ms [] = ms"
| "run ms (m # rest) = run (fst (applyMutation ms m)) rest"

text \<open>The revisions of the objects in the non-nil slots, in index order.\<close>

fun liveRevs :: "objList \<Rightarrow> nat list" where
  "liveRevs [] = []"
| "liveRevs (None # l) = liveRevs l"
| "liveRevs (Some v # l) = rvOrZero (obj v) # liveRevs l"

text \<open>The ordering of a store: the revisions of the events sent and the revisions in the
  list are strictly increasing, and none is beyond the counter.\<close>

definition revisionsOrdered :: "MemoryStore \<Rightarrow> bool" where
  "revisionsOrdered ms =
     (sorted_wrt (<) (map evRev (sent ms)) \<and> list_all (\<lambda>e. evRev e \<le> memoryRev ms) (sent ms) \<and>
      sorted_wrt (<) (liveRevs (kvList ms)) \<and>
      list_all (\<lambda>r. r \<le> memoryRev ms) (liveRevs (kvList ms)))"

text \<open>The same between \<^verbatim>\<open>reserveRevAndSlot\<close> and the write of the reserved slot
  \<open>idx\<close>: the slot is the last one and nil, and every revision is below the counter.\<close>

definition pendingOrdered :: "MemoryStore \<Rightarrow> nat \<Rightarrow> bool" where
  "pendingOrdered ms idx =
     (idx + 1 = length (kvList ms) \<and> kvList ms ! idx = None \<and>
      sorted_wrt (<) (map evRev (sent ms)) \<and> list_all (\<lambda>e. evRev e < memoryRev ms) (sent ms) \<and>
      sorted_wrt (<) (liveRevs (kvList ms)) \<and>
      list_all (\<lambda>r. r < memoryRev ms) (liveRevs (kvList ms)))"

text \<open>One step keeps the order and moves the counter by at most one.\<close>

definition stepOrdered :: "MemoryStore \<Rightarrow> MemoryStore \<Rightarrow> bool" where
  "stepOrdered ms ms1 =
     (revisionsOrdered ms1 \<and> memoryRev ms \<le> memoryRev ms1 \<and> memoryRev ms1 \<le> memoryRev ms + 1)"

text \<open>What one call does to the events, given the events sent before and the next value
  \<open>r\<close> of the counter: a failed call sends none; a call that returns nil sends none or
  one, and that one carries \<open>r\<close>, the value the counter then has.\<close>

definition eventStep :: "objEvent list \<Rightarrow> nat \<Rightarrow> result \<Rightarrow> bool" where
  "eventStep evs r res =
     (case snd res of
        Inl e \<Rightarrow> sent (fst res) = evs
      | Inr out \<Rightarrow>
          sent (fst res) = evs \<or>
          (\<exists>e. sent (fst res) = evs @ [e] \<and> evRev e = r \<and> memoryRev (fst res) = r))"

subsection \<open>The binary search as the specification words it\<close>

text \<open>The smallest index whose slot is non-nil and holds an object of revision at least
  \<open>r\<close>, and the length of the list when there is none.\<close>

fun specBinarySearchRev :: "objList \<Rightarrow> nat \<Rightarrow> nat" where
  "specBinarySearchRev [] r = 0"
| "specBinarySearchRev (s # l) r =
     (case s of
        None \<Rightarrow> Suc (specBinarySearchRev l r)
      | Some v \<Rightarrow> if rvOrZero (obj v) \<ge> r then 0 else Suc (specBinarySearchRev l r))"

subsection \<open>A caller writing through a reference\<close>

text \<open>The caller's statement \<^verbatim>\<open>o.Finalizers[i] = s\<close> on an object it holds: a write
  into the heap cell the object's field refers to.\<close>

definition callerWrite :: "MemoryStore \<Rightarrow> object \<Rightarrow> string list \<Rightarrow> MemoryStore" where
  "callerWrite ms ob v = ms\<lparr>heap := (heap ms)[finalizers ob := v]\<rparr>"

subsection \<open>Example stores\<close>

text \<open>A store created at clock 1700000000000000 with one caller-owned heap cell, then
  filled with three objects under \<^verbatim>\<open>/p/\<close>; two stores with deletions.\<close>

definition exObject :: "string \<Rightarrow> object" where
  "exObject n = \<lparr>objName = n, resourceVersion = Some 0, deletionTimestamp = False,
     finalizers = 0, payload = ''spec''\<rparr>"

definition exEmpty :: MemoryStore where
  "exEmpty = NewMemoryStore 1700000000000000 [[''keep'']]"

definition exStore1 :: MemoryStore where
  "exStore1 = fst (Create Inr exEmpty ''/p/a'' (exObject ''a''))"

definition exStore3 :: MemoryStore where
  "exStore3 =
     fst (Create Inr (fst (Create Inr exStore1 ''/p/b'' (exObject ''b''))) ''/p/c'' (exObject ''c''))"

definition exStoreGap :: MemoryStore where
  "exStoreGap = fst (Delete exStore3 ''/p/b'' zeroObject None None None)"

definition exStoreTail :: MemoryStore where
  "exStoreTail = fst (Delete exStoreGap ''/p/c'' zeroObject None None None)"

text \<open>Reading \<^verbatim>\<open>/p/a\<close> from the store holding it, the caller then writing into the
  finalizers of the object it received; and the store after the deletion of \<^verbatim>\<open>/p/a\<close>.\<close>

definition exGetOpts :: GetOptions where
  "exGetOpts = \<lparr>IgnoreNotFound = False, ResourceVersion = []\<rparr>"

definition exOut :: object where
  "exOut = (exObject ''a'')\<lparr>resourceVersion := Some 4613386018427387905\<rparr>"

definition exStoreGone :: MemoryStore where
  "exStoreGone = fst (Delete exStore1 ''/p/a'' zeroObject None None None)"

definition exStoreRead :: MemoryStore where
  "exStoreRead = fst (Get exStore1 ''/p/a'' exGetOpts)"

definition exGot :: object where
  "exGot = exOut\<lparr>finalizers := 1\<rparr>"

definition exStoreWritten :: MemoryStore where
  "exStoreWritten = callerWrite exStoreRead exGot [''changed'']"

text \<open>A store holding \<^verbatim>\<open>/p/a\<close> with no finalizers, a precondition on the revision the
  object has there, and an update that sets the deletion timestamp: the update succeeds and
  moves the revision, so the same precondition fails in the deletion that follows.\<close>

definition exDyingStore :: MemoryStore where
  "exDyingStore =
     fst (Create Inr (NewMemoryStore 1700000000000000 [[]]) ''/p/a'' (exObject ''a''))"

definition exPre :: preconds where
  "exPre = Some (\<lambda>k ob. if resourceVersion ob = Some 4613386018427387905 then None
                          else Some (Conflict ''Precondition failed: ResourceVersion''))"

definition exTryUpdate :: "object \<Rightarrow> updateFunc" where
  "exTryUpdate u = (\<lambda>cur h. Inr (u, h))"

definition exDying :: object where
  "exDying = (exObject ''a'')\<lparr>deletionTimestamp := True\<rparr>"

definition exUpdated :: MemoryStore where
  "exUpdated = fst (GuaranteedUpdate exDyingStore ''/p/a'' False exPre (exTryUpdate exDying) None)"

definition exOutput :: object where
  "exOutput = exDying\<lparr>resourceVersion := Some 4613386018427387906\<rparr>"

definition exAfterDelete :: MemoryStore where
  "exAfterDelete = fst (Delete exUpdated ''/p/a'' exOutput exPre (Some (\<lambda>_. None)) (Some exOutput))"

text \<open>A codec for continue tokens, list options and an empty list object for the examples.\<close>

definition exDecode :: "string \<Rightarrow> string \<Rightarrow> error + (string \<times> int)" where
  "exDecode tok keyPrefix =
     (if tok = ''next-b'' then Inr (keyPrefix @ ''b'', 4613386018427387906)
      else if tok = ''zero'' then Inr (keyPrefix @ ''b'', 0)
      else Inl (Failure ''continue key is not valid''))"

definition exEncode :: "string \<Rightarrow> string \<Rightarrow> nat \<Rightarrow> error + string" where
  "exEncode lastKey keyPrefix r = Inr (''next-'' @ drop (length keyPrefix) lastKey)"

definition exPred :: "string \<Rightarrow> SelectionPredicate" where
  "exPred tok = \<lparr>Limit = 1, Continue = tok, isEmpty = True, Matches = (\<lambda>_. True)\<rparr>"

definition exListOpts :: "string \<Rightarrow> string \<Rightarrow> string \<Rightarrow> bool \<Rightarrow> ListOptions" where
  "exListOpts version match tok recursive =
     \<lparr>listResourceVersion = version, ResourceVersionMatch = match, Predicate = exPred tok,
      Recursive = recursive\<rparr>"

definition exEmptyList :: listObject where
  "exEmptyList = \<lparr>Items = [], ListRV = 0, ContinueToken = [], RemainingItemCount = None\<rparr>"

text \<open>The slot of \<^verbatim>\<open>/p/b\<close> in the store of three objects, and the store and slot after \<^verbatim>\<open>/p/b\<close> was replaced.\<close>

definition exSlotB :: objWithIndex where
  "exSlotB = \<lparr>key = ''/p/b'',
     obj = (exObject ''b'')\<lparr>resourceVersion := Some 4613386018427387906, finalizers := 3\<rparr>,
     index = 1\<rparr>"

definition exStoreReplaced :: MemoryStore where
  "exStoreReplaced = fst (CreateOrReplace exStore3 ''/p/b'' (exObject ''b''))"

definition exSlotB2 :: objWithIndex where
  "exSlotB2 = \<lparr>key = ''/p/b'',
     obj = (exObject ''b'')\<lparr>resourceVersion := Some 4613386018427387908, finalizers := 8\<rparr>,
     index = 3\<rparr>"

text \<open>The slot of \<^verbatim>\<open>/p/a\<close> in the store holding it.\<close>

definition exSlotA :: objWithIndex where
  "exSlotA = \<lparr>key = ''/p/a'', obj = exGot, index = 0\<rparr>"

text \<open>The slot of \<^verbatim>\<open>/p/c\<close> in the store of three objects, and the first page of one item.\<close>

definition exSlotC :: objWithIndex where
  "exSlotC = \<lparr>key = ''/p/c'',
     obj = (exObject ''c'')\<lparr>resourceVersion := Some 4613386018427387907, finalizers := 5\<rparr>,
     index = 2\<rparr>"

definition exPage1 :: listObject where
  "exPage1 = \<lparr>Items = [exGot], ListRV = 1, ContinueToken = ''next-a'',
     RemainingItemCount = Some 2\<rparr>"

definition exOps :: "mutation list" where
  "exOps =
     [MCreate Inr ''/p/a'' (exObject ''a''), MCreate Inr ''/p/b'' (exObject ''b''),
      MDelete ''/p/a'' zeroObject None None None]"

section \<open>Properties\<close>

subsection \<open>Evaluating the examples\<close>

lemmas exec_defs =
  Create_def Delete_def commitCreate_def reserveRevAndSlot_def setSlot_def sendEvent_def
  DeepCopyObject_def cell_def kvs_get_def kvs_put_def kvs_del_def deleteRev_def
  checkPreconditions_def runValidate_def ObjectResourceVersion_def
  UpdateObjectResourceVersion_def NewMemoryStore_def Let_def rvOrZero_def

lemma exStoreTail_list:
  "kvList exStoreTail =
     [Some \<lparr>key = ''/p/a'',
            obj = (exObject ''a'')\<lparr>resourceVersion := Some 4613386018427387905, finalizers := 1\<rparr>,
            index = 0\<rparr>,
      None, None]"
  unfolding exStoreTail_def exStoreGap_def exStore3_def exStore1_def exEmpty_def exObject_def
    zeroObject_def
  by (simp add: exec_defs)

subsection \<open>The binary search\<close>

text \<open>Where the predicate of the search is monotone along the list, the code returns the
  index the specification words: so it does on a list with no nil slot whose revisions are
  in order.\<close>

lemma searchLoop_monotone:
  "(\<forall>a b. a \<le> b \<and> b < n \<and> f a \<longrightarrow> f b) \<Longrightarrow> i \<le> j \<Longrightarrow> j \<le> n \<Longrightarrow>
   (\<forall>a<i. \<not> f a) \<Longrightarrow> (\<forall>b. j \<le> b \<and> b < n \<longrightarrow> f b) \<Longrightarrow>
     searchLoop f i j \<le> n \<and> (\<forall>a < searchLoop f i j. \<not> f a) \<and>
     (\<forall>b. searchLoop f i j \<le> b \<and> b < n \<longrightarrow> f b)"
proof (induction f i j rule: searchLoop.induct)
  case (1 f i j)
  note mono = "1.prems"(1) and ij = "1.prems"(2) and jn = "1.prems"(3)
    and lo = "1.prems"(4) and hi = "1.prems"(5)
  show ?case
  proof (cases "i < j")
    case False
    then have "searchLoop f i j = i" by (subst searchLoop.simps) simp
    moreover from False ij have "i = j" by simp
    ultimately show ?thesis using jn lo hi by simp
  next
    case True
    define h where "h = (i + j) div 2"
    have h: "i \<le> h" "h < j" using True by (simp_all add: h_def)
    with jn have hn: "h < n" by simp
    show ?thesis
    proof (cases "f h")
      case False
      have lo': "\<forall>a<h + 1. \<not> f a"
      proof (intro allI impI notI)
        fix a assume "a < h + 1" and "f a"
        then have "a \<le> h" by simp
        with mono hn \<open>f a\<close> have "f h" by blast
        with False show False by simp
      qed
      have eq: "searchLoop f i j = searchLoop f (h + 1) j"
        using True False by (subst searchLoop.simps) (simp add: h_def Let_def)
      from h have "h + 1 \<le> j" by simp
      from "1.IH"(1) [OF True h_def False mono this jn lo' hi]
      show ?thesis unfolding eq .
    next
      case fh: True
      have hi': "\<forall>b. h \<le> b \<and> b < n \<longrightarrow> f b"
        using mono fh by blast
      have eq: "searchLoop f i j = searchLoop f i h"
        using True fh by (subst searchLoop.simps) (simp add: h_def Let_def)
      from hn have "h \<le> n" by simp
      from "1.IH"(2) [OF True h_def _ mono h(1) this lo hi'] fh
      show ?thesis unfolding eq by simp
    qed
  qed
qed

lemma specBinarySearchRev_le: "specBinarySearchRev l r \<le> length l"
  by (induction l) (auto split: option.splits)

lemma specBinarySearchRev_unique:
  "k \<le> length l \<Longrightarrow>
   (\<forall>a<k. \<not> (case l ! a of None \<Rightarrow> False | Some ob \<Rightarrow> rvOrZero (obj ob) \<ge> r)) \<Longrightarrow>
   (k < length l \<longrightarrow> (case l ! k of None \<Rightarrow> False | Some ob \<Rightarrow> rvOrZero (obj ob) \<ge> r)) \<Longrightarrow>
   specBinarySearchRev l r = k"
proof (induction l arbitrary: k)
  case Nil
  then show ?case by simp
next
  case (Cons s l)
  show ?case
  proof (cases k)
    case 0
    with Cons.prems show ?thesis by (auto split: option.splits)
  next
    case (Suc k')
    with Cons.prems have n: "\<not> (case s of None \<Rightarrow> False | Some ob \<Rightarrow> rvOrZero (obj ob) \<ge> r)"
      by auto
    have "specBinarySearchRev l r = k'"
    proof (rule Cons.IH)
      show "k' \<le> length l" using Cons.prems(1) Suc by simp
      show "\<forall>a<k'. \<not> (case l ! a of None \<Rightarrow> False | Some ob \<Rightarrow> r \<le> rvOrZero (obj ob))"
      proof (intro allI impI)
        fix a assume "a < k'"
        then have "Suc a < k" using Suc by simp
        with Cons.prems(2) show "\<not> (case l ! a of None \<Rightarrow> False | Some ob \<Rightarrow> r \<le> rvOrZero (obj ob))"
          by fastforce
      qed
      show "k' < length l \<longrightarrow> (case l ! k' of None \<Rightarrow> False | Some ob \<Rightarrow> r \<le> rvOrZero (obj ob))"
        using Cons.prems(3) Suc by simp
    qed
    with n Suc show ?thesis by (auto split: option.splits)
  qed
qed

lemma binarySearchInObjList_monotone:
  assumes "\<And>a b. a \<le> b \<Longrightarrow> b < length l \<Longrightarrow> searchPred l r a \<Longrightarrow> searchPred l r b"
  shows "binarySearchInObjList l r = specBinarySearchRev l r"
proof -
  define k where "k = searchLoop (searchPred l r) 0 (length l)"
  from assms have m: "\<forall>a b. a \<le> b \<and> b < length l \<and> searchPred l r a \<longrightarrow> searchPred l r b"
    by blast
  have "searchLoop (searchPred l r) 0 (length l) \<le> length l \<and>
      (\<forall>a < searchLoop (searchPred l r) 0 (length l). \<not> searchPred l r a) \<and>
      (\<forall>b. searchLoop (searchPred l r) 0 (length l) \<le> b \<and> b < length l \<longrightarrow> searchPred l r b)"
    by (rule searchLoop_monotone [OF m]) auto
  then have k: "k \<le> length l" "\<And>a. a < k \<Longrightarrow> \<not> searchPred l r a"
    "k < length l \<Longrightarrow> searchPred l r k"
    unfolding k_def [symmetric] by blast+
  have p: "searchPred l r a = (case l ! a of None \<Rightarrow> False | Some ob \<Rightarrow> rvOrZero (obj ob) \<ge> r)"
    if "a < length l" for a
    using that by (simp add: searchPred_def)
  have "specBinarySearchRev l r = k"
  proof (rule specBinarySearchRev_unique [OF k(1)])
    show "\<forall>a < k. \<not> (case l ! a of None \<Rightarrow> False | Some ob \<Rightarrow> r \<le> rvOrZero (obj ob))"
    proof (intro allI impI)
      fix a assume a: "a < k"
      with k(1) have "a < length l" by simp
      from k(2) [OF a] show "\<not> (case l ! a of None \<Rightarrow> False | Some ob \<Rightarrow> r \<le> rvOrZero (obj ob))"
        unfolding p [OF \<open>a < length l\<close>] .
    qed
    show "k < length l \<longrightarrow> (case l ! k of None \<Rightarrow> False | Some ob \<Rightarrow> r \<le> rvOrZero (obj ob))"
    proof
      assume kl: "k < length l"
      from k(3) [OF kl] show "case l ! k of None \<Rightarrow> False | Some ob \<Rightarrow> r \<le> rvOrZero (obj ob)"
        unfolding p [OF kl] .
    qed
  qed
  then show ?thesis by (simp add: binarySearchInObjList_def Search_def k_def)
qed


lemma liveRevs_full:
  "list_all (\<lambda>s. s \<noteq> None) l \<Longrightarrow> liveRevs l = map (\<lambda>s. rvOrZero (obj (the s))) l"
  by (induction l rule: liveRevs.induct) auto

lemma binarySearchInObjList_full_sorted:
  assumes "list_all (\<lambda>s. s \<noteq> None) l" and "sorted (liveRevs l)"
  shows "binarySearchInObjList l r = specBinarySearchRev l r"
proof (rule binarySearchInObjList_monotone)
  fix a b
  assume ab: "a \<le> b" and b: "b < length l" and pa: "searchPred l r a"
  from ab b have a: "a < length l" by simp
  from assms(1) a have "l ! a \<noteq> None" by (simp add: list_all_length)
  then obtain x where x: "l ! a = Some x" by (cases "l ! a") simp_all
  from assms(1) b have "l ! b \<noteq> None" by (simp add: list_all_length)
  then obtain y where y: "l ! b = Some y" by (cases "l ! b") simp_all
  have len: "length (liveRevs l) = length l" by (simp add: liveRevs_full [OF assms(1)])
  have "liveRevs l ! a \<le> liveRevs l ! b"
    by (rule sorted_nth_mono [OF assms(2) ab]) (simp add: len b)
  then have "rvOrZero (obj x) \<le> rvOrZero (obj y)"
    using a b x y by (simp add: liveRevs_full [OF assms(1)])
  with pa x y a b show "searchPred l r b"
    by (simp add: searchPred_def)
qed

text \<open>
  C5. The claim: \<^verbatim>\<open>binarySearchInObjList(r)\<close> returns the smallest index whose slot is
  non-nil and holds a revision at least \<open>r\<close>, skipping nil slots. After three creations
  and the deletion of the last two objects the list is one live slot followed by two nil
  slots; searching for the revision of the live object, the code answers 3, the length of
  the list, where the claim's index is 0: the predicate is false on the nil slots, hence
  not monotone, and \<^verbatim>\<open>sort.Search\<close> moves right past the live slot.
\<close>

theorem binarySearchInObjList_misses_live_slot:
  "binarySearchInObjList (kvList exStoreTail) 4613386018427387905 = 3 \<and>
   specBinarySearchRev (kvList exStoreTail) 4613386018427387905 = 0"
  unfolding exStoreTail_list
  by (simp add: binarySearchInObjList_def Search_def searchPred_def searchLoop.simps
      exObject_def rvOrZero_def ObjectResourceVersion_def)

subsection \<open>The order of the revisions\<close>

lemma liveRevs_append: "liveRevs (a @ b) = liveRevs a @ liveRevs b"
  by (induction a rule: liveRevs.induct) auto

lemma liveRevs_clear_set: "set (liveRevs (l[i := None])) \<subseteq> set (liveRevs l)"
proof (induction l arbitrary: i rule: liveRevs.induct)
  case 1
  then show ?case by simp
next
  case (2 l)
  then show ?case by (cases i) auto
next
  case (3 v l)
  then show ?case by (cases i) auto
qed

lemma liveRevs_clear_sorted:
  "sorted_wrt (<) (liveRevs l) \<Longrightarrow> sorted_wrt (<) (liveRevs (l[i := None]))"
proof (induction l arbitrary: i rule: liveRevs.induct)
  case 1
  then show ?case by simp
next
  case (2 l)
  then show ?case by (cases i) auto
next
  case (3 v l)
  show ?case
  proof (cases i)
    case 0
    with 3 show ?thesis by simp
  next
    case (Suc j)
    with 3 liveRevs_clear_set [of l j] show ?thesis by auto
  qed
qed

lemma liveRevs_clear_all:
  "list_all P (liveRevs l) \<Longrightarrow> list_all P (liveRevs (l[i := None]))"
  using liveRevs_clear_set [of l i] by (auto simp: list_all_iff)

lemma liveRevs_fill_last:
  assumes "idx + 1 = length l" and "l ! idx = None"
  shows "liveRevs (l[idx := Some w]) = liveRevs l @ [rvOrZero (obj w)]"
proof -
  from assms have "l = take idx l @ [None]"
    by (metis Suc_eq_plus1 lessI take_Suc_conv_app_nth take_all order_refl)
  then obtain xs where l: "l = xs @ [None]" and len: "length xs = idx"
    using assms(1) by (metis Suc_eq_plus1 length_append_singleton nat.inject)
  show ?thesis
    by (simp add: l len [symmetric] liveRevs_append)
qed

lemma revisionsOrdered_heap [simp]: "revisionsOrdered (ms\<lparr>heap := h\<rparr>) = revisionsOrdered ms"
  by (simp add: revisionsOrdered_def)

lemma pendingOrdered_heap [simp]: "pendingOrdered (ms\<lparr>heap := h\<rparr>) idx = pendingOrdered ms idx"
  by (simp add: pendingOrdered_def)

lemma pendingOrdered_kvs [simp]: "pendingOrdered (ms\<lparr>kvs := m\<rparr>) idx = pendingOrdered ms idx"
  by (simp add: pendingOrdered_def)

lemma revisionsOrdered_kvs [simp]: "revisionsOrdered (ms\<lparr>kvs := m\<rparr>) = revisionsOrdered ms"
  by (simp add: revisionsOrdered_def)

lemma pending_imp_ordered: "pendingOrdered ms idx \<Longrightarrow> revisionsOrdered ms"
  by (auto simp: pendingOrdered_def revisionsOrdered_def list_all_iff intro: less_imp_le)

lemma rvOrZero_update [simp]: "rvOrZero (UpdateObjectResourceVersion ob r) = r"
  by (simp add: rvOrZero_def ObjectResourceVersion_def UpdateObjectResourceVersion_def)

lemma rvOrZero_finalizers [simp]: "rvOrZero (ob\<lparr>finalizers := a\<rparr>) = rvOrZero ob"
  by (simp add: rvOrZero_def ObjectResourceVersion_def)

lemma memoryRev_commitCreate [simp]:
  "memoryRev (fst (commitCreate ms k objWi outObj r)) = memoryRev ms"
  by (simp add: commitCreate_def setSlot_def sendEvent_def DeepCopyObject_def
      split: sum.splits option.splits)

lemma memoryRev_commitUpdate [simp]:
  "memoryRev (fst (commitUpdate ms k curObjWi newObjWi currRv outObj currObj r)) = memoryRev ms"
  by (auto simp: commitUpdate_def setSlot_def sendEvent_def DeepCopyObject_def
      split: sum.splits option.splits if_splits)

lemma commitCreate_ordered:
  assumes "pendingOrdered ms (index objWi)" and "rvOrZero (obj objWi) = memoryRev ms"
    and "r = memoryRev ms"
  shows "revisionsOrdered (fst (commitCreate ms k objWi outObj r))"
proof -
  have ro: "revisionsOrdered ms" using assms(1) by (rule pending_imp_ordered)
  show ?thesis
    using assms ro
    by (auto simp: commitCreate_def setSlot_def sendEvent_def DeepCopyObject_def
        revisionsOrdered_def pendingOrdered_def liveRevs_fill_last sorted_wrt_append list_all_iff
        split: sum.splits option.splits if_splits)
qed

lemma pendingOrdered_clear:
  assumes "pendingOrdered ms idx" and "setSlot ms c None = Some ms1"
  shows "pendingOrdered ms1 idx"
proof -
  from assms(2) have c: "c < length (kvList ms)" and ms1: "ms1 = ms\<lparr>kvList := (kvList ms)[c := None]\<rparr>"
    by (auto simp: setSlot_def split: if_splits)
  from assms(1) have "(kvList ms)[c := None] ! idx = None"
    by (cases "c = idx") (auto simp: pendingOrdered_def)
  with assms(1) show ?thesis
    by (simp add: ms1 pendingOrdered_def liveRevs_clear_sorted liveRevs_clear_all)
qed

lemma revisionsOrdered_clear:
  assumes "revisionsOrdered ms" and "setSlot ms c None = Some ms1"
  shows "revisionsOrdered ms1 \<and> memoryRev ms1 = memoryRev ms \<and> sent ms1 = sent ms"
  using assms
  by (auto simp: setSlot_def revisionsOrdered_def liveRevs_clear_sorted liveRevs_clear_all
      split: if_splits)

lemma pendingOrdered_fill:
  assumes "pendingOrdered ms idx" and "rvOrZero (obj w) = memoryRev ms"
    and "setSlot ms idx (Some w) = Some ms1"
  shows "revisionsOrdered (sendEvent (ms1\<lparr>heap := h\<rparr>)
           \<lparr>evKey = k, evObj = a, oldObj = b, evRev = memoryRev ms, isDeleted = d, isCreated = c\<rparr>)"
  using assms pending_imp_ordered [OF assms(1)]
  by (auto simp: setSlot_def sendEvent_def revisionsOrdered_def pendingOrdered_def
      liveRevs_fill_last sorted_wrt_append list_all_iff split: if_splits)

lemma commitUpdate_ordered:
  assumes "pendingOrdered ms (index newObjWi)" and "rvOrZero (obj newObjWi) = memoryRev ms"
    and "r = memoryRev ms"
  shows "revisionsOrdered (fst (commitUpdate ms k curObjWi newObjWi currRv outObj currObj r))"
proof (cases "kvs_put (kvs ms) (splitKey k) newObjWi currRv")
  case (Inl e)
  with assms(1) show ?thesis by (simp add: commitUpdate_def pending_imp_ordered)
next
  case (Inr m)
  have p0: "pendingOrdered (ms\<lparr>kvs := m\<rparr>) (index newObjWi)" using assms(1) by simp
  show ?thesis
  proof (cases "setSlot (ms\<lparr>kvs := m\<rparr>) (index curObjWi) None")
    case None
    with Inr assms(1) show ?thesis by (simp add: commitUpdate_def pending_imp_ordered)
  next
    case (Some ms1)
    have p1: "pendingOrdered ms1 (index newObjWi)" by (rule pendingOrdered_clear [OF p0 Some])
    have m1: "memoryRev ms1 = memoryRev ms"
      using Some by (auto simp: setSlot_def split: if_splits)
    show ?thesis
    proof (cases "setSlot ms1 (index newObjWi) (Some newObjWi)")
      case None
      with Inr Some p1 show ?thesis by (simp add: commitUpdate_def pending_imp_ordered)
    next
      case (Some ms2)
      have "rvOrZero (obj newObjWi) = memoryRev ms1" using assms(2) m1 by simp
      from pendingOrdered_fill [OF p1 this Some]
      show ?thesis
        using Inr \<open>setSlot (ms\<lparr>kvs := m\<rparr>) (index curObjWi) None = Some ms1\<close> Some assms(3) m1
        by (simp add: commitUpdate_def DeepCopyObject_def)
    qed
  qed
qed

lemma stepOrdered_refl: "revisionsOrdered ms \<Longrightarrow> stepOrdered ms ms"
  by (simp add: stepOrdered_def)

lemma stepOrdered_heap: "revisionsOrdered ms \<Longrightarrow> stepOrdered ms (ms\<lparr>heap := h\<rparr>)"
  by (simp add: stepOrdered_def)

lemma deleteRev_ordered:
  assumes "revisionsOrdered ms" and "memoryRev ms + 1 < 2 ^ 64"
    and "deleteRev ms k existingObj pre val = (ms1, res)"
  shows "case res of
           Inl e \<Rightarrow> stepOrdered ms ms1
         | Inr r \<Rightarrow> r = memoryRev ms + 1 \<and> memoryRev ms1 = r \<and> sent ms1 = sent ms \<and>
                    kvList ms1 = kvList ms"
  using assms
  by (auto simp: deleteRev_def DeepCopyObject_def Let_def stepOrdered_def
      split: sum.splits option.splits)

lemma delete_tail:
  assumes "revisionsOrdered ms" and "memoryRev ms + 1 < 2 ^ 64"
    and "memoryRev ms1 = memoryRev ms + 1" and "sent ms1 = sent ms" and "kvList ms1 = kvList ms"
    and "setSlot (ms1\<lparr>kvs := m\<rparr>) i None = Some ms2"
  shows "stepOrdered ms (sendEvent (ms2\<lparr>heap := h\<rparr>)
           \<lparr>evKey = k, evObj = a, oldObj = b, evRev = memoryRev ms + 1, isDeleted = d, isCreated = c\<rparr>)"
proof -
  from assms(6) have ms2: "ms2 = ms1\<lparr>kvs := m, kvList := (kvList ms1)[i := None]\<rparr>"
    by (auto simp: setSlot_def split: if_splits)
  have "list_all (\<lambda>r. r \<le> memoryRev ms) (liveRevs ((kvList ms)[i := None]))"
    using assms(1) by (simp add: revisionsOrdered_def liveRevs_clear_all)
  then have l: "list_all (\<lambda>r. r \<le> memoryRev ms + 1) (liveRevs ((kvList ms)[i := None]))"
    by (auto simp: list_all_iff)
  have e: "list_all (\<lambda>e. evRev e < memoryRev ms + 1) (sent ms)"
    using assms(1) by (auto simp: revisionsOrdered_def list_all_iff)
  show ?thesis
    using assms(1,3,4,5) l e
    by (auto simp: ms2 sendEvent_def stepOrdered_def revisionsOrdered_def liveRevs_clear_sorted
        sorted_wrt_append list_all_iff)
qed

lemma Delete_ordered:
  assumes "revisionsOrdered ms" and "memoryRev ms + 1 < 2 ^ 64"
  shows "stepOrdered ms (fst (Delete ms k out pre val cached))"
proof (cases "kvs_get (kvs ms) (splitKey k)")
  case None
  with assms(1) show ?thesis
    by (simp add: Delete_def Let_def stepOrdered_refl split: sum.splits)
next
  case (Some existingObj)
  obtain ms1 res where dr: "deleteRev ms k existingObj pre val = (ms1, res)"
    by (cases "deleteRev ms k existingObj pre val") auto
  note d = deleteRev_ordered [OF assms dr]
  show ?thesis
  proof (cases res)
    case (Inl e)
    with d Some dr assms(1) show ?thesis
      by (simp add: Delete_def Let_def stepOrdered_refl split: sum.splits)
  next
    case (Inr r)
    with d have f: "r = memoryRev ms + 1" "memoryRev ms1 = memoryRev ms + 1" "sent ms1 = sent ms"
      "kvList ms1 = kvList ms" by simp_all
    have p: "stepOrdered ms (ms1\<lparr>kvs := m\<rparr>)" for m
      using assms(1) f by (simp add: stepOrdered_def revisionsOrdered_def list_all_iff le_SucI)
    show ?thesis
      using Some dr Inr assms(1) p delete_tail [OF assms f(2,3,4)]
      by (simp add: Delete_def Let_def stepOrdered_refl kvs_del_def DeepCopyObject_def f(1)
          split: sum.splits option.splits)
  qed
qed


lemma pendingOrdered_reserved:
  assumes "revisionsOrdered ms" and "memoryRev ms1 = memoryRev ms + 1" and "sent ms1 = sent ms"
    and "kvList ms1 = kvList ms @ [None]"
  shows "pendingOrdered ms1 (length (kvList ms))"
  using assms
  by (auto simp: pendingOrdered_def revisionsOrdered_def liveRevs_append nth_append list_all_iff
      less_Suc_eq_le)

lemma commitCreate_step:
  assumes "revisionsOrdered ms" and "memoryRev ms1 = memoryRev ms + 1" and "sent ms1 = sent ms"
    and "kvList ms1 = kvList ms @ [None]" and "index objWi = length (kvList ms)"
    and "rvOrZero (obj objWi) = memoryRev ms + 1" and "r = memoryRev ms + 1"
  shows "stepOrdered ms (fst (commitCreate ms1 k objWi outObj r))"
  using pendingOrdered_reserved [OF assms(1-4)] assms(2,5-7)
  by (simp add: stepOrdered_def commitCreate_ordered)

lemma commitUpdate_step:
  assumes "revisionsOrdered ms" and "memoryRev ms1 = memoryRev ms + 1" and "sent ms1 = sent ms"
    and "kvList ms1 = kvList ms @ [None]" and "index newObjWi = length (kvList ms)"
    and "rvOrZero (obj newObjWi) = memoryRev ms + 1" and "r = memoryRev ms + 1"
  shows "stepOrdered ms (fst (commitUpdate ms1 k curObjWi newObjWi currRv outObj currObj r))"
  using pendingOrdered_reserved [OF assms(1-4)] assms(2,5-7)
  by (simp add: stepOrdered_def commitUpdate_ordered)

lemma GuaranteedUpdate_ordered:
  assumes "revisionsOrdered ms" and "memoryRev ms + 1 < 2 ^ 64"
  shows "stepOrdered ms (fst (GuaranteedUpdate ms k ignoreNotFound pre upd cached))"
  using assms
  by (simp add: GuaranteedUpdate_def DeepCopyObject_def reserveRevAndSlot_def Let_def
      stepOrdered_refl stepOrdered_heap commitUpdate_step
      split: sum.splits option.splits prod.splits)

lemma GetOrCreate_ordered:
  assumes "revisionsOrdered ms" and "memoryRev ms + 1 < 2 ^ 64"
  shows "stepOrdered ms (fst (GetOrCreate ms k ob))"
  using assms
  by (simp add: GetOrCreate_def DeepCopyObject_def reserveRevAndSlot_def Let_def
      stepOrdered_refl stepOrdered_heap commitCreate_step
      split: sum.splits option.splits prod.splits)


lemma stepOrdered_reserved:
  assumes "revisionsOrdered ms" and "memoryRev ms1 = memoryRev ms + 1" and "sent ms1 = sent ms"
    and "kvList ms1 = kvList ms @ [None]"
  shows "stepOrdered ms ms1"
  using pending_imp_ordered [OF pendingOrdered_reserved [OF assms]] assms(2)
  by (simp add: stepOrdered_def)

lemma Create_ordered:
  assumes "revisionsOrdered ms" and "memoryRev ms + 1 < 2 ^ 64"
  shows "stepOrdered ms (fst (Create p ms k ob))"
  using assms
  by (simp add: Create_def DeepCopyObject_def reserveRevAndSlot_def Let_def
      stepOrdered_refl stepOrdered_heap commitCreate_step
      split: sum.splits option.splits prod.splits)

lemma CreateOrUpdate_ordered:
  assumes "revisionsOrdered ms" and "memoryRev ms + 1 < 2 ^ 64"
  shows "stepOrdered ms (fst (CreateOrUpdate ms k ob mf))"
  using assms
  by (simp add: CreateOrUpdate_def DeepCopyObject_def reserveRevAndSlot_def Let_def
      stepOrdered_refl stepOrdered_heap commitCreate_step commitUpdate_step
      split: sum.splits option.splits prod.splits)

lemma CreateOrReplace_ordered:
  assumes "revisionsOrdered ms" and "memoryRev ms + 1 < 2 ^ 64"
  shows "stepOrdered ms (fst (CreateOrReplace ms k ob))"
  using assms
  by (simp add: CreateOrReplace_def DeepCopyObject_def reserveRevAndSlot_def Let_def
      stepOrdered_refl stepOrdered_heap commitCreate_step commitUpdate_step stepOrdered_reserved
      split: sum.splits option.splits prod.splits)

lemma applyMutation_ordered:
  assumes "revisionsOrdered ms" and "memoryRev ms + 1 < 2 ^ 64"
  shows "stepOrdered ms (fst (applyMutation ms m))"
  using assms
  by (cases m)
    (simp_all add: Create_ordered Delete_ordered GuaranteedUpdate_ordered CreateOrUpdate_ordered
      CreateOrReplace_ordered GetOrCreate_ordered)

lemma run_ordered:
  "revisionsOrdered ms \<Longrightarrow> memoryRev ms + length ops < 2 ^ 64 \<Longrightarrow>
     revisionsOrdered (run ms ops) \<and> memoryRev (run ms ops) \<le> memoryRev ms + length ops"
proof (induction ops arbitrary: ms)
  case Nil
  then show ?case by simp
next
  case (Cons m ops)
  from Cons.prems have b: "memoryRev ms + 1 < 2 ^ 64" by simp
  from applyMutation_ordered [OF Cons.prems(1) b, of m]
  have s: "revisionsOrdered (fst (applyMutation ms m))"
    and u: "memoryRev (fst (applyMutation ms m)) \<le> memoryRev ms + 1"
    by (simp_all add: stepOrdered_def)
  from u Cons.prems(2) have "memoryRev (fst (applyMutation ms m)) + length ops < 2 ^ 64" by simp
  from Cons.IH [OF s this] u show ?case by simp
qed

text \<open>
  C4. From a store whose revisions are ordered (a new store is), along any sequence of calls
  of the mutating operations that does not take the 64-bit counter past its last value,
  the revisions of the events sent (by \<open>applyMutation_event\<close> below, the revisions
  assigned by the successful mutations, in execution order) are strictly increasing, and
  so are the revisions of the objects in the non-nil slots of the list, read in index order.
\<close>

theorem revisions_strictly_increasing:
  assumes "revisionsOrdered ms" and "memoryRev ms + length ops < 2 ^ 64"
  shows "sorted_wrt (<) (map evRev (sent (run ms ops))) \<and>
         sorted_wrt (<) (liveRevs (kvList (run ms ops)))"
  using run_ordered [OF assms] by (simp add: revisionsOrdered_def)

theorem revisions_strictly_increasing_witness:
  "revisionsOrdered exEmpty \<and> memoryRev exEmpty + length exOps < 2 ^ 64 \<and>
   sorted_wrt (<) (map evRev (sent (run exEmpty exOps))) \<and>
   sorted_wrt (<) (liveRevs (kvList (run exEmpty exOps))) \<and>
   map evRev (sent (run exEmpty exOps)) =
     [4613386018427387905, 4613386018427387906, 4613386018427387907] \<and>
   liveRevs (kvList (run exEmpty exOps)) = [4613386018427387906]"
proof -
  have a: "revisionsOrdered exEmpty"
    by (simp add: revisionsOrdered_def exEmpty_def NewMemoryStore_def)
  have b: "memoryRev exEmpty + length exOps < 2 ^ 64"
    by (simp add: exEmpty_def exOps_def NewMemoryStore_def)
  have c: "map evRev (sent (run exEmpty exOps)) =
     [4613386018427387905, 4613386018427387906, 4613386018427387907]"
    by (simp add: exEmpty_def exOps_def exObject_def zeroObject_def exec_defs)
  have d: "liveRevs (kvList (run exEmpty exOps)) = [4613386018427387906]"
    by (simp add: exEmpty_def exOps_def exObject_def zeroObject_def exec_defs)
  from revisions_strictly_increasing [OF a b] a b c d show ?thesis by simp
qed

subsection \<open>Create, Get and Delete\<close>

lemma commitCreate_success:
  assumes "commitCreate ms k objWi outObj r = (ms1, Inr out1)"
  shows "out1 = outObj \<and> kvs_get (kvs ms1) (splitKey k) = Some objWi \<and>
         memoryRev ms1 = memoryRev ms \<and>
         sent ms1 = sent ms @ [\<lparr>evKey = k, evObj = Some (outObj\<lparr>finalizers := length (heap ms)\<rparr>),
            oldObj = None, evRev = r, isDeleted = False, isCreated = True\<rparr>] \<and>
         heap ms1 = heap ms @ [cell (heap ms) (finalizers outObj)]"
  using assms
  by (auto simp: commitCreate_def kvs_put_def kvs_get_def setSlot_def sendEvent_def
      DeepCopyObject_def split: sum.splits option.splits if_splits)

lemma Create_success:
  assumes "Create p ms k ob = (ms1, Inr out1)"
  shows "\<exists>ob0 slot. p ob = Inr ob0 \<and> out1 = UpdateObjectResourceVersion ob0 ((memoryRev ms + 1) mod 2 ^ 64) \<and>
           memoryRev ms1 = (memoryRev ms + 1) mod 2 ^ 64 \<and>
           kvs_get (kvs ms1) (splitKey k) = Some slot \<and>
           obj slot = out1\<lparr>finalizers := length (heap ms)\<rparr> \<and>
           (\<exists>e. sent ms1 = sent ms @ [e] \<and> evRev e = memoryRev ms1 \<and> isCreated e) \<and>
           heap ms1 = heap ms @ [cell (heap ms) (finalizers out1),
                                 cell (heap ms @ [cell (heap ms) (finalizers out1)]) (finalizers out1)]"
proof -
  from assms obtain ob0 where p: "p ob = Inr ob0"
    by (auto simp: Create_def split: sum.splits)
  from assms p have n: "kvs_get (kvs ms) (splitKey k) = None"
    by (auto simp: Create_def split: option.splits)
  let ?r = "(memoryRev ms + 1) mod 2 ^ 64"
  let ?ob1 = "UpdateObjectResourceVersion ob0 ?r"
  let ?ms = "ms\<lparr>memoryRev := ?r, kvList := kvList ms @ [None],
                 heap := heap ms @ [cell (heap ms) (finalizers ?ob1)]\<rparr>"
  from assms p n have c: "commitCreate ?ms k
       \<lparr>key = k, obj = ?ob1\<lparr>finalizers := length (heap ms)\<rparr>, index = length (kvList ms)\<rparr> ?ob1 ?r
       = (ms1, Inr out1)"
    by (simp add: Create_def reserveRevAndSlot_def Let_def DeepCopyObject_def)
  from commitCreate_success [OF c] p show ?thesis by auto
qed

lemma Get_found:
  assumes "kvs_get (kvs ms) (splitKey k) = Some slot" and "resourceVersion (obj slot) = Some r"
    and "ResourceVersion opts = []"
  shows "Get ms k opts = (ms\<lparr>heap := heap ms @ [cell (heap ms) (finalizers (obj slot))]\<rparr>, Inr (obj slot))"
  using assms
  by (simp add: Get_def Let_def DeepCopyObject_def ObjectResourceVersion_def
      validateMinimumResourceVersion_def)

lemma deleteRev_success:
  assumes "deleteRev ms k slot pre val = (ms1, Inr r)"
  shows "r = (memoryRev ms + 1) mod 2 ^ 64 \<and>
         ms1 = ms\<lparr>heap := heap ms @ [cell (heap ms) (finalizers (obj slot))], memoryRev := r\<rparr>"
  using assms
  by (auto simp: deleteRev_def DeepCopyObject_def Let_def split: sum.splits option.splits)

lemma cell_copy_twice:
  "cell (h @ [cell h a, cell (h @ [cell h a]) (length h)]) (Suc (length h)) =
   cell (h @ [cell h a, cell (h @ [cell h a]) (length h)]) a"
proof -
  consider "a < length h" | "a = length h" | "a = Suc (length h)" | "a > Suc (length h)"
    by linarith
  then show ?thesis
    by cases (simp_all add: cell_def nth_append)
qed

lemma Delete_success:
  assumes "Delete ms k out pre val cached = (ms1, Inr out1)"
  shows "out1 = out \<and> take (length (heap ms)) (heap ms1) = heap ms \<and>
         kvs_get (kvs ms1) (splitKey k) = None \<and>
         (\<exists>slot e old. kvs_get (kvs ms) (splitKey k) = Some slot \<and> sent ms1 = sent ms @ [e] \<and>
            evKey e = k \<and> isDeleted e \<and> \<not> isCreated e \<and> evObj e = None \<and> oldObj e = Some old \<and>
            evRev e = memoryRev ms1 \<and>
            deepEqual (heap ms1) old (obj slot))"
proof -
  from assms have c: "(case cached of None \<Rightarrow> Inr 0 | Some c \<Rightarrow> ObjectResourceVersion c) \<noteq> Inl e" for e
    by (auto simp: Delete_def)
  from assms c obtain slot where g: "kvs_get (kvs ms) (splitKey k) = Some slot"
    by (cases "kvs_get (kvs ms) (splitKey k)") (auto simp: Delete_def Let_def split: sum.splits)
  obtain ms0 res where dr: "deleteRev ms k slot pre val = (ms0, res)"
    by (cases "deleteRev ms k slot pre val") auto
  from assms c g dr obtain r where r: "res = Inr r"
    by (cases res) (auto simp: Delete_def Let_def split: sum.splits)
  note d = deleteRev_success [OF dr [unfolded r]]
  let ?h1 = "heap ms @ [cell (heap ms) (finalizers (obj slot))]"
  from assms c g dr r d
  have i: "index slot < length (kvList ms)"
    by (auto simp: Delete_def Let_def kvs_del_def setSlot_def split: sum.splits if_splits)
  from assms c g dr r d i
  have "sent ms1 = sent ms @ [\<lparr>evKey = k, evObj = None,
            oldObj = Some ((obj slot)\<lparr>finalizers := Suc (length ?h1)\<rparr>),
            evRev = r, isDeleted = True, isCreated = False\<rparr>]"
    and "heap ms1 = ?h1 @ [cell ?h1 (finalizers (obj slot)),
            cell (?h1 @ [cell ?h1 (finalizers (obj slot))]) (length ?h1)]"
    and "kvs ms1 = (kvs ms)(splitKey k := None)" and "memoryRev ms1 = r" and "out1 = out"
    by (auto simp: Delete_def Let_def kvs_del_def setSlot_def DeepCopyObject_def sendEvent_def
        split: sum.splits)
  then show ?thesis
    using g cell_copy_twice [of ?h1 "finalizers (obj slot)"]
    by (simp add: kvs_get_def deepEqual_def)
qed


lemma Get_absent:
  assumes "kvs_get (kvs ms) (splitKey k) = None" and "\<not> IgnoreNotFound opts"
  shows "Get ms k opts = (ms, Inl (KeyNotFound k))"
  using assms by (simp add: Get_def Let_def)

text \<open>
  C6. After a successful \<^verbatim>\<open>Create(K, O)\<close>, a \<^verbatim>\<open>Get(K)\<close> whose minimum resource
  version the new revision satisfies (the empty one always) returns an object that is
  deep-equal to the object stored at the key, and to the object \<^verbatim>\<open>Create\<close> handed back
  when that one's reference was allocated; its resource version is the revision assigned
  by the \<^verbatim>\<open>Create\<close>, the one of the Created event. After a successful
  \<^verbatim>\<open>Delete(K)\<close>, a \<^verbatim>\<open>Get(K)\<close> without \<^verbatim>\<open>ignoreNotFound\<close> fails with
  KeyNotFound.
\<close>

theorem create_get_delete_roundtrip:
  "(Create p ms k ob = (ms1, Inr out1) \<longrightarrow>
      validateMinimumResourceVersion (ResourceVersion opts) (memoryRev ms1) = None \<longrightarrow>
      (\<exists>ms2 got slot.
         Get ms1 k opts = (ms2, Inr got) \<and> kvs_get (kvs ms1) (splitKey k) = Some slot \<and>
         deepEqual (heap ms2) got (obj slot) \<and>
         (finalizers out1 < length (heap ms) \<longrightarrow> deepEqual (heap ms2) got out1) \<and>
         resourceVersion got = Some (memoryRev ms1) \<and>
         resourceVersion out1 = Some (memoryRev ms1) \<and>
         (\<exists>e. sent ms1 = sent ms @ [e] \<and> isCreated e \<and> evRev e = memoryRev ms1))) \<and>
   (Delete msd k out pre val cached = (ms3, Inr out3) \<longrightarrow> \<not> IgnoreNotFound opts \<longrightarrow>
      Get ms3 k opts = (ms3, Inl (KeyNotFound k)))"
proof (intro conjI impI)
  assume c: "Create p ms k ob = (ms1, Inr out1)"
    and v: "validateMinimumResourceVersion (ResourceVersion opts) (memoryRev ms1) = None"
  from Create_success [OF c] obtain ob0 slot e where
    o: "out1 = UpdateObjectResourceVersion ob0 ((memoryRev ms + 1) mod 2 ^ 64)"
    and m: "memoryRev ms1 = (memoryRev ms + 1) mod 2 ^ 64"
    and g: "kvs_get (kvs ms1) (splitKey k) = Some slot"
    and s: "obj slot = out1\<lparr>finalizers := length (heap ms)\<rparr>"
    and e: "sent ms1 = sent ms @ [e]" "evRev e = memoryRev ms1" "isCreated e"
    and h: "heap ms1 = heap ms @ [cell (heap ms) (finalizers out1),
              cell (heap ms @ [cell (heap ms) (finalizers out1)]) (finalizers out1)]"
    by blast
  have rv: "resourceVersion out1 = Some (memoryRev ms1)"
    by (simp add: o m UpdateObjectResourceVersion_def)
  then have rs: "resourceVersion (obj slot) = Some (memoryRev ms1)" by (simp add: s)
  let ?ms2 = "ms1\<lparr>heap := heap ms1 @ [cell (heap ms1) (finalizers (obj slot))]\<rparr>"
  have get: "Get ms1 k opts = (?ms2, Inr (obj slot))"
    using g rs v by (simp add: Get_def Let_def DeepCopyObject_def ObjectResourceVersion_def)
  have d: "deepEqual (heap ?ms2) (obj slot) out1" if "finalizers out1 < length (heap ms)"
    using that by (simp add: s h deepEqual_def cell_def nth_append)
  show "\<exists>ms2 got slot.
         Get ms1 k opts = (ms2, Inr got) \<and> kvs_get (kvs ms1) (splitKey k) = Some slot \<and>
         deepEqual (heap ms2) got (obj slot) \<and>
         (finalizers out1 < length (heap ms) \<longrightarrow> deepEqual (heap ms2) got out1) \<and>
         resourceVersion got = Some (memoryRev ms1) \<and>
         resourceVersion out1 = Some (memoryRev ms1) \<and>
         (\<exists>e. sent ms1 = sent ms @ [e] \<and> isCreated e \<and> evRev e = memoryRev ms1)"
    using get g d rs rv e by (auto simp: deepEqual_def)
next
  assume "Delete msd k out pre val cached = (ms3, Inr out3)" and "\<not> IgnoreNotFound opts"
  with Delete_success [of msd k out pre val cached ms3 out3]
  show "Get ms3 k opts = (ms3, Inl (KeyNotFound k))"
    by (simp add: Get_absent)
qed

lemma exStore1_create:
  "Create Inr exEmpty ''/p/a'' (exObject ''a'') = (exStore1, Inr exOut)"
  by (simp add: exStore1_def prod_eq_iff exOut_def exEmpty_def exObject_def exec_defs)

lemma exStoreGone_delete:
  "Delete exStore1 ''/p/a'' zeroObject None None None = (exStoreGone, Inr zeroObject)"
  by (simp add: exStoreGone_def prod_eq_iff exStore1_def exEmpty_def exObject_def exec_defs)

theorem create_get_delete_roundtrip_witness:
  "Create Inr exEmpty ''/p/a'' (exObject ''a'') = (exStore1, Inr exOut) \<and>
   (\<exists>ms2 got. Get exStore1 ''/p/a'' exGetOpts = (ms2, Inr got) \<and> deepEqual (heap ms2) got exOut \<and>
      resourceVersion got = Some 4613386018427387905) \<and>
   Delete exStore1 ''/p/a'' zeroObject None None None = (exStoreGone, Inr zeroObject) \<and>
   Get exStoreGone ''/p/a'' exGetOpts = (exStoreGone, Inl (KeyNotFound ''/p/a''))"
proof -
  have v: "validateMinimumResourceVersion (ResourceVersion exGetOpts) (memoryRev exStore1) = None"
    by (simp add: validateMinimumResourceVersion_def exGetOpts_def)
  have m: "memoryRev exStore1 = 4613386018427387905"
    by (simp add: exStore1_def exEmpty_def exObject_def exec_defs)
  have f: "finalizers exOut < length (heap exEmpty)"
    by (simp add: exOut_def exObject_def exEmpty_def NewMemoryStore_def)
  have n: "\<not> IgnoreNotFound exGetOpts" by (simp add: exGetOpts_def)
  from create_get_delete_roundtrip [of Inr exEmpty "''/p/a''" "exObject ''a''" exStore1 exOut
      exGetOpts, THEN conjunct1, rule_format, OF exStore1_create v] f m
  have 1: "\<exists>ms2 got. Get exStore1 ''/p/a'' exGetOpts = (ms2, Inr got) \<and>
      deepEqual (heap ms2) got exOut \<and> resourceVersion got = Some 4613386018427387905"
    by auto
  from create_get_delete_roundtrip [of _ _ "''/p/a''" _ _ _ exGetOpts exStore1 zeroObject None None
      None exStoreGone zeroObject, THEN conjunct2, rule_format, OF exStoreGone_delete n]
  have 2: "Get exStoreGone ''/p/a'' exGetOpts = (exStoreGone, Inl (KeyNotFound ''/p/a''))" .
  from 1 2 exStore1_create exStoreGone_delete show ?thesis by blast
qed


text \<open>
  C10. A successful \<^verbatim>\<open>Delete\<close> leaves the object behind the caller's \<^verbatim>\<open>out\<close> as
  it was: the struct is returned unchanged, and every heap cell that existed before the
  call keeps its contents (the call only allocates). The deep copy of the deleted object
  goes into the \<^verbatim>\<open>oldObj\<close> field of the one event sent, a Deleted event with no
  \<^verbatim>\<open>obj\<close>.
\<close>

theorem Delete_never_writes_out:
  assumes "Delete ms k out pre val cached = (ms1, Inr out1)"
  shows "out1 = out \<and> take (length (heap ms)) (heap ms1) = heap ms \<and>
         (\<exists>slot e old. kvs_get (kvs ms) (splitKey k) = Some slot \<and> sent ms1 = sent ms @ [e] \<and>
            evKey e = k \<and> isDeleted e \<and> evObj e = None \<and> oldObj e = Some old \<and>
            deepEqual (heap ms1) old (obj slot))"
  using Delete_success [OF assms] by blast

theorem Delete_never_writes_out_witness:
  "Delete exStore1 ''/p/a'' zeroObject None None None = (exStoreGone, Inr zeroObject) \<and>
   take (length (heap exStore1)) (heap exStoreGone) = heap exStore1 \<and>
   (\<exists>slot e old. kvs_get (kvs exStore1) (splitKey ''/p/a'') = Some slot \<and>
      sent exStoreGone = sent exStore1 @ [e] \<and> evKey e = ''/p/a'' \<and> isDeleted e \<and>
      evObj e = None \<and> oldObj e = Some old \<and> deepEqual (heap exStoreGone) old (obj slot))"
  using Delete_never_writes_out [OF exStoreGone_delete] exStoreGone_delete by simp

lemma Get_returns_stored_struct:
  assumes "Get ms k opts = (ms1, Inr got)" and "kvs_get (kvs ms) (splitKey k) = Some slot"
  shows "got = obj slot \<and> kvs ms1 = kvs ms \<and> kvList ms1 = kvList ms \<and>
         take (length (heap ms)) (heap ms1) = heap ms"
  using assms
  by (auto simp: Get_def Let_def DeepCopyObject_def split: sum.splits option.splits)

text \<open>
  C3. The claim: the object \<^verbatim>\<open>Get\<close> writes into \<^verbatim>\<open>out\<close> is a deep copy, so a
  caller mutating it leaves the stored object unchanged. On the store holding
  \<^verbatim>\<open>/p/a\<close>, \<^verbatim>\<open>Get\<close> returns a struct whose finalizers field is the address the
  stored object uses (the deep copy \<^verbatim>\<open>currObj\<close> is only used to read the revision);
  once the caller writes through it, the object in the key tree and in the list reads
  \<^verbatim>\<open>changed\<close> where it read \<^verbatim>\<open>keep\<close>.
\<close>

theorem Get_hands_out_stored_references:
  "Get exStore1 ''/p/a'' exGetOpts = (exStoreRead, Inr exGot) \<and>
   map_option (\<lambda>s. finalizers (obj s)) (kvs_get (kvs exStoreRead) (splitKey ''/p/a'')) =
     Some (finalizers exGot) \<and>
   map_option (\<lambda>s. cell (heap exStoreRead) (finalizers (obj s)))
     (kvs_get (kvs exStoreRead) (splitKey ''/p/a'')) = Some [''keep''] \<and>
   map_option (\<lambda>s. cell (heap exStoreWritten) (finalizers (obj s)))
     (kvs_get (kvs exStoreWritten) (splitKey ''/p/a'')) = Some [''changed''] \<and>
   map (map_option (\<lambda>s. cell (heap exStoreWritten) (finalizers (obj s)))) (kvList exStoreWritten) =
     [Some [''changed'']]"
  by (simp add: exStoreWritten_def exStoreRead_def callerWrite_def exGot_def exOut_def
      exGetOpts_def exStore1_def exEmpty_def exObject_def prod_eq_iff Get_def
      validateMinimumResourceVersion_def exec_defs)

subsection \<open>EnsureUpdateAndDelete\<close>

text \<open>
  C8. Whenever the inner \<^verbatim>\<open>GuaranteedUpdate\<close> succeeds, \<^verbatim>\<open>EnsureUpdateAndDelete\<close>
  returns nil with the updated object in \<^verbatim>\<open>output\<close>; when the updated object signals
  deletion and the \<^verbatim>\<open>Delete\<close> that follows returns an error, the error is dropped and
  the store is the one that failed \<^verbatim>\<open>Delete\<close> left.
\<close>

theorem EnsureUpdateAndDelete_swallows_delete_error:
  assumes "GuaranteedUpdate ms k ignoreNotFound pre (G updatedObj) None = (ms1, Inr output)"
  shows "snd (EnsureUpdateAndDelete G ms k ignoreNotFound pre updatedObj) = Inr output \<and>
         (ShouldDeleteSpec (heap ms1) output \<longrightarrow>
          Delete ms1 k output pre (Some (\<lambda>_. None)) (Some output) = (ms2, Inl e) \<longrightarrow>
            EnsureUpdateAndDelete G ms k ignoreNotFound pre updatedObj = (ms2, Inr output))"
  using assms by (simp add: EnsureUpdateAndDelete_def split: prod.splits)

lemmas update_defs = GuaranteedUpdate_def commitUpdate_def

lemma exUpdated_update:
  "GuaranteedUpdate exDyingStore ''/p/a'' False exPre (exTryUpdate exDying) None =
     (exUpdated, Inr exOutput)"
  by (simp add: exUpdated_def prod_eq_iff exOutput_def exDying_def exTryUpdate_def exPre_def
      exDyingStore_def exObject_def update_defs exec_defs)

lemma exUpdated_should_delete: "ShouldDeleteSpec (heap exUpdated) exOutput"
  by (simp add: ShouldDeleteSpec_def exUpdated_def exOutput_def exDying_def exTryUpdate_def exPre_def
      exDyingStore_def exObject_def update_defs exec_defs)

lemma exAfterDelete_fails:
  "Delete exUpdated ''/p/a'' exOutput exPre (Some (\<lambda>_. None)) (Some exOutput) =
     (exAfterDelete, Inl (Conflict ''Precondition failed: ResourceVersion''))"
  by (simp add: exAfterDelete_def prod_eq_iff exUpdated_def exOutput_def exDying_def
      exTryUpdate_def exPre_def exDyingStore_def exObject_def update_defs exec_defs)

theorem EnsureUpdateAndDelete_swallows_delete_error_witness:
  "GuaranteedUpdate exDyingStore ''/p/a'' False exPre (exTryUpdate exDying) None =
     (exUpdated, Inr exOutput) \<and>
   ShouldDeleteSpec (heap exUpdated) exOutput \<and>
   Delete exUpdated ''/p/a'' exOutput exPre (Some (\<lambda>_. None)) (Some exOutput) =
     (exAfterDelete, Inl (Conflict ''Precondition failed: ResourceVersion'')) \<and>
   EnsureUpdateAndDelete exTryUpdate exDyingStore ''/p/a'' False exPre exDying =
     (exAfterDelete, Inr exOutput)"
  using EnsureUpdateAndDelete_swallows_delete_error [where G = exTryUpdate and updatedObj = exDying,
      OF exUpdated_update, THEN conjunct2,
      rule_format, OF exUpdated_should_delete exAfterDelete_fails]
    exUpdated_update exUpdated_should_delete exAfterDelete_fails
  by simp

subsection \<open>GetList with a continue token: the rejected calls\<close>

lemma parseFromRV_cases:
  "(\<exists>n. parseFromRV v = Inr n) \<or> parseFromRV v = Inl (BadRequest ''invalid resource version'')"
  by (simp add: parseFromRV_def split: sum.splits)

lemma resolveStart_bad_request:
  assumes "Continue (Predicate opts) \<noteq> []"
    and "(listResourceVersion opts \<noteq> [] \<and> listResourceVersion opts \<noteq> ''0'') \<or>
         (\<exists>lastKey. D (Continue (Predicate opts)) keyPrefix = Inr (lastKey, 0))"
  shows "\<exists>msg. \<forall>ms. resolveStart D ms keyPrefix opts = Inl (BadRequest msg)"
proof -
  from parseFromRV_cases [of "listResourceVersion opts"]
  consider (bad) "parseFromRV (listResourceVersion opts) = Inl (BadRequest ''invalid resource version'')"
    | (ok) n where "parseFromRV (listResourceVersion opts) = Inr n"
    by blast
  then show ?thesis
  proof cases
    case bad
    then show ?thesis by (simp add: resolveStart_def Let_def)
  next
    case ok
    from assms(2) show ?thesis
    proof
      assume "listResourceVersion opts \<noteq> [] \<and> listResourceVersion opts \<noteq> ''0''"
      with ok assms(1) show ?thesis by (simp add: resolveStart_def Let_def)
    next
      assume "\<exists>lastKey. D (Continue (Predicate opts)) keyPrefix = Inr (lastKey, 0)"
      then obtain lastKey where "D (Continue (Predicate opts)) keyPrefix = Inr (lastKey, 0)" ..
      with ok assms(1) show ?thesis
        by (cases "listResourceVersion opts \<noteq> [] \<and> listResourceVersion opts \<noteq> ''0''")
          (simp_all add: resolveStart_def Let_def)
    qed
  qed
qed

text \<open>
  C9. A recursive \<^verbatim>\<open>GetList\<close> with a continue token fails with a bad-request error
  when the resource version is neither empty nor \<^verbatim>\<open>"0"\<close>, and when the token decodes to
  revision 0. The answer is the same on every store: neither the key tree nor the list is
  read. \<^verbatim>\<open>GetList\<close> returns no store: it writes none.
\<close>

theorem GetList_continue_bad_request:
  assumes "Recursive opts" and "Continue (Predicate opts) \<noteq> []"
    and "(listResourceVersion opts \<noteq> [] \<and> listResourceVersion opts \<noteq> ''0'') \<or>
         (\<exists>lastKey. D (Continue (Predicate opts)) (listPrefix k) = Inr (lastKey, 0))"
  shows "(\<exists>msg. GetList D E ms k opts l = Inl (BadRequest msg)) \<and>
         GetList D E ms' k opts l = GetList D E ms k opts l"
proof -
  from resolveStart_bad_request [where D = D and keyPrefix = "listPrefix k", OF assms(2,3)]
  obtain msg where
    "\<And>s. resolveStart D s (listPrefix k) opts = Inl (BadRequest msg)" by blast
  with assms(1) show ?thesis by (simp add: GetList_def Let_def)
qed


theorem GetList_continue_bad_request_witness:
  "GetList exDecode exEncode exStore3 ''/p'' (exListOpts ''5'' [] ''next-b'' True) exEmptyList =
     Inl (BadRequest ''specifying resource version is not allowed when using continue'') \<and>
   GetList exDecode exEncode exStore3 ''/p'' (exListOpts [] [] ''zero'' True) exEmptyList =
     Inl (BadRequest ''0 continue resource version is not allowed when using continue'') \<and>
   GetList exDecode exEncode exEmpty ''/p'' (exListOpts [] [] ''zero'' True) exEmptyList =
     GetList exDecode exEncode exStore3 ''/p'' (exListOpts [] [] ''zero'' True) exEmptyList"
proof -
  let ?o = "exListOpts [] [] ''zero'' True"
  have a: "Recursive ?o" by (simp add: exListOpts_def)
  have b: "Continue (Predicate ?o) \<noteq> []"
    by (simp add: exListOpts_def exPred_def)
  have c: "(listResourceVersion ?o \<noteq> [] \<and> listResourceVersion ?o \<noteq> ''0'') \<or>
         (\<exists>lastKey. exDecode (Continue (Predicate ?o)) (listPrefix ''/p'') = Inr (lastKey, 0))"
    by (simp add: exListOpts_def exPred_def exDecode_def)
  have d: "GetList exDecode exEncode exStore3 ''/p'' (exListOpts ''5'' [] ''next-b'' True) exEmptyList =
     Inl (BadRequest ''specifying resource version is not allowed when using continue'')"
    by (simp add: GetList_def resolveStart_def parseFromRV_def ParseResourceVersion_def Let_def
        exListOpts_def exPred_def)
  have e: "GetList exDecode exEncode exStore3 ''/p'' ?o exEmptyList =
     Inl (BadRequest ''0 continue resource version is not allowed when using continue'')"
    by (simp add: GetList_def resolveStart_def parseFromRV_def Let_def listPrefix_def HasSuffix_def
        exListOpts_def exPred_def exDecode_def)
  from GetList_continue_bad_request [where D = exDecode and E = exEncode and ms = exStore3
      and ms' = exEmpty and l = exEmptyList and k = "''/p''" and opts = ?o, OF a b c] d e
  show ?thesis by simp
qed

subsection \<open>GetList with a continue token: where the walk starts\<close>

text \<open>
  C1, as amended. For a recursive \<^verbatim>\<open>GetList\<close> whose continue token decodes to
  \<open>(lastKey, continueRev)\<close> with \<open>continueRev > 0\<close>, and whose key tree still holds
  \<open>lastKey\<close>: the walk starts at the slot index stored with \<open>lastKey\<close> when the object
  held there is at exactly \<open>continueRev\<close>, and otherwise at the index the binary search
  for \<open>continueRev\<close> returns (an index beyond the list gives the empty answer).
\<close>

theorem GetList_continue_start:
  assumes "Recursive opts" and "Continue (Predicate opts) \<noteq> []"
    and "listResourceVersion opts = [] \<or> listResourceVersion opts = ''0''"
    and "D (Continue (Predicate opts)) (listPrefix k) = Inr (lastKey, continueRev)"
    and "0 < continueRev"
    and "kvs_get (kvs ms) (splitKey lastKey) = Some slot"
    and "start = (if rvOrZero (obj slot) = nat continueRev then index slot
                  else binarySearchInObjList (kvList ms) (nat continueRev))"
  shows "resolveStart D ms (listPrefix k) opts = Inr (nat continueRev, nat continueRev, start) \<and>
         GetList D E ms k opts l =
           (if start \<ge> length (kvList ms) then Inr (UpdateList l (nat continueRev) [] None)
            else finishList E (listPrefix k) (Predicate opts) (nat continueRev) l
                   (walk (kvList ms) (listPrefix k) (ResourceVersionMatch opts) (nat continueRev)
                      (Predicate opts) (pageLimit (Predicate opts)) start (Items l) []
                      (nat continueRev)))"
proof -
  from assms(3) have p: "\<exists>n. parseFromRV (listResourceVersion opts) = Inr n"
    by (auto simp: parseFromRV_def ParseResourceVersion_def)
  then obtain n where n: "parseFromRV (listResourceVersion opts) = Inr n" ..
  have r: "resolveStart D ms (listPrefix k) opts = Inr (nat continueRev, nat continueRev, start)"
    using assms(2-7) n by (auto simp: resolveStart_def Let_def)
  with assms(1) show ?thesis by (simp add: GetList_def Let_def)
qed

lemmas list_defs = resolveStart_def parseFromRV_def exListOpts_def exPred_def exDecode_def
  binarySearchInObjList_def Search_def searchPred_def searchLoop.simps

lemmas store3_defs = exStore3_def exStore1_def exEmpty_def exObject_def zeroObject_def

text \<open>
  C1, as stated, fails when the key tree no longer holds \<open>lastKey\<close>: after the deletion
  of \<^verbatim>\<open>/p/b\<close>, a token for \<^verbatim>\<open>/p/b\<close> at its old revision leaves
  \<^verbatim>\<open>searchingIndex\<close> at 0, while the binary search for that revision gives 2.
\<close>

theorem GetList_continue_start_deleted_key:
  "kvs_get (kvs exStoreGap) (splitKey ''/p/b'') = None \<and>
   resolveStart exDecode exStoreGap ''/p/'' (exListOpts [] [] ''next-b'' True) =
     Inr (4613386018427387906, 4613386018427387906, 0) \<and>
   binarySearchInObjList (kvList exStoreGap) 4613386018427387906 = 2"
  by (simp add: exStoreGap_def store3_defs list_defs exec_defs)

theorem GetList_continue_start_witness:
  "resolveStart exDecode exStore3 (listPrefix ''/p'') (exListOpts [] [] ''next-b'' True) =
     Inr (4613386018427387906, 4613386018427387906, 1) \<and>
   resolveStart exDecode exStoreReplaced (listPrefix ''/p'') (exListOpts [] [] ''next-b'' True) =
     Inr (4613386018427387906, 4613386018427387906, 2)"
proof -
  let ?o = "exListOpts [] [] ''next-b'' True"
  have a: "Recursive ?o" and b: "Continue (Predicate ?o) \<noteq> []"
    and c: "listResourceVersion ?o = [] \<or> listResourceVersion ?o = ''0''"
    by (simp_all add: exListOpts_def exPred_def)
  have d: "exDecode (Continue (Predicate ?o)) (listPrefix ''/p'') = Inr (''/p/b'', 4613386018427387906)"
    by (simp add: exListOpts_def exPred_def exDecode_def listPrefix_def HasSuffix_def)
  have e: "(0::int) < 4613386018427387906" by simp
  have g1: "kvs_get (kvs exStore3) (splitKey ''/p/b'') = Some exSlotB"
    by (simp add: exSlotB_def store3_defs exec_defs)
  have s1: "1 = (if rvOrZero (obj exSlotB) = nat 4613386018427387906 then index exSlotB
                 else binarySearchInObjList (kvList exStore3) (nat 4613386018427387906))"
    by (simp add: exSlotB_def rvOrZero_def ObjectResourceVersion_def exObject_def)
  have g2: "kvs_get (kvs exStoreReplaced) (splitKey ''/p/b'') = Some exSlotB2"
    by (simp add: exSlotB2_def exStoreReplaced_def CreateOrReplace_def commitUpdate_def
        store3_defs exec_defs)
  have s2: "2 = (if rvOrZero (obj exSlotB2) = nat 4613386018427387906 then index exSlotB2
                 else binarySearchInObjList (kvList exStoreReplaced) (nat 4613386018427387906))"
    by (simp add: exSlotB2_def exStoreReplaced_def CreateOrReplace_def commitUpdate_def
        store3_defs list_defs exec_defs)
  from GetList_continue_start [where E = exEncode and l = exEmptyList and D = exDecode
        and k = "''/p''" and opts = ?o, OF a b c d e g1 s1]
    GetList_continue_start [where E = exEncode and l = exEmptyList and D = exDecode
        and k = "''/p''" and opts = ?o, OF a b c d e g2 s2]
  show ?thesis by simp
qed

subsection \<open>The match rule of the single-key list and of the list walk\<close>

lemma walk_single_slot:
  assumes "HasPrefix (key slot) keyPrefix"
  shows "map_sum id fst (walk [Some slot] keyPrefix match v pred limit 0 items lastKey lastRev) =
         (case listMatchRule match (rvOrZero (obj slot)) v of
            Inl e \<Rightarrow> Inl e
          | Inr inc \<Rightarrow>
              Inr (if inc then AppendListItem items (obj slot) (rvOrZero (obj slot)) pred else items))"
  using assms
  by (simp add: walk.simps [of _ _ _ _ _ _ 0] walk.simps [of _ _ _ _ _ _ "Suc 0"] Let_def
      split: sum.splits)

text \<open>
  C7, as amended. For an object held at key \<open>k\<close> with revision \<open>r\<close> and an asked revision
  \<open>v\<close>: under every match mode but \<^verbatim>\<open>Exact\<close> the non-recursive single-key
  \<^verbatim>\<open>GetList\<close> answers with the items (or the error of an unknown mode) that the
  recursive list walk gives on the object's slot; under \<^verbatim>\<open>Exact\<close> the single-key path
  includes the object iff \<open>r = v\<close>, the list walk iff \<open>r > v\<close>.
\<close>

theorem single_key_list_rule:
  assumes "parseFromRV (listResourceVersion opts) = Inr (Some v)"
    and "kvs_get (kvs ms) (splitKey k) = Some slot" and "resourceVersion (obj slot) = Some r"
    and "HasPrefix (key slot) keyPrefix"
  shows "(ResourceVersionMatch opts \<noteq> ''Exact'' \<longrightarrow>
            map_sum id Items (getSingleObjectAsList ms k opts l) =
            map_sum id fst (walk [Some slot] keyPrefix (ResourceVersionMatch opts) v
                              (Predicate opts) limit 0 (Items l) lastKey lastRev)) \<and>
         (ResourceVersionMatch opts = ''Exact'' \<longrightarrow>
            map_sum id Items (getSingleObjectAsList ms k opts l) =
              Inr (if r = v then AppendListItem (Items l) (obj slot) r (Predicate opts)
                   else Items l) \<and>
            map_sum id fst (walk [Some slot] keyPrefix (ResourceVersionMatch opts) v
                              (Predicate opts) limit 0 (Items l) lastKey lastRev) =
              Inr (if r > v then AppendListItem (Items l) (obj slot) r (Predicate opts)
                   else Items l))"
proof -
  have rv: "rvOrZero (obj slot) = r" "ObjectResourceVersion (obj slot) = Inr r"
    using assms(3) by (simp_all add: rvOrZero_def ObjectResourceVersion_def)
  have s: "map_sum id Items (getSingleObjectAsList ms k opts l) =
      (case singleMatchRule (ResourceVersionMatch opts) r v of
         Inl e \<Rightarrow> Inl e
       | Inr inc \<Rightarrow> Inr (if inc then AppendListItem (Items l) (obj slot) r (Predicate opts)
                         else Items l))"
    using assms(1,2) rv
    by (simp add: getSingleObjectAsList_def Let_def UpdateList_def split: sum.splits)
  show ?thesis
    unfolding s walk_single_slot [OF assms(4)] rv
    by (simp add: singleMatchRule_def listMatchRule_def)
qed

lemma exStore1_slot: "kvs_get (kvs exStore1) (splitKey ''/p/a'') = Some exSlotA"
  by (simp add: exSlotA_def exGot_def exOut_def exStore1_def exEmpty_def exObject_def exec_defs)

lemma exStore1_list: "kvList exStore1 = [Some exSlotA]"
  by (simp add: exSlotA_def exGot_def exOut_def exStore1_def exEmpty_def exObject_def exec_defs)

text \<open>
  C7, as stated, fails under \<^verbatim>\<open>Exact\<close>: with the asked revision 5 and \<^verbatim>\<open>/p/a\<close> held
  at a greater revision, the single-key \<^verbatim>\<open>GetList\<close> returns no item and the recursive
  one returns the object.
\<close>

theorem single_key_exact_differs:
  "map_sum id Items
     (GetList exDecode exEncode exStore1 ''/p/a'' (exListOpts ''5'' ''Exact'' [] False) exEmptyList) =
     Inr [] \<and>
   map_sum id Items
     (GetList exDecode exEncode exStore1 ''/p'' (exListOpts ''5'' ''Exact'' [] True) exEmptyList) =
     Inr [exGot]"
  by (simp add: GetList_def getSingleObjectAsList_def exStore1_slot exStore1_list listPrefix_def
      HasSuffix_def HasPrefix_def finishList_def pageLimit_def stopAt_def UpdateList_def
      AppendListItem_def singleMatchRule_def listMatchRule_def ParseResourceVersion_def
      exSlotA_def exGot_def exOut_def exObject_def exEmptyList_def ObjectResourceVersion_def
      rvOrZero_def Let_def list_defs walk.simps del: splitKey.simps)

theorem single_key_list_rule_witness:
  "map_sum id Items
     (getSingleObjectAsList exStore1 ''/p/a'' (exListOpts ''5'' ''NotOlderThan'' [] False) exEmptyList) =
     Inr [exGot] \<and>
   map_sum id fst
     (walk [Some exSlotA] ''/p/'' ''NotOlderThan'' 5 (exPred []) 1 0 [] [] 5) = Inr [exGot] \<and>
   map_sum id Items
     (getSingleObjectAsList exStore1 ''/p/a'' (exListOpts ''4613386018427387905'' ''Exact'' [] False)
        exEmptyList) = Inr [exGot] \<and>
   map_sum id fst
     (walk [Some exSlotA] ''/p/'' ''Exact'' 4613386018427387905 (exPred []) 1 0 [] [] 5) = Inr []"
proof -
  have p: "parseFromRV (listResourceVersion (exListOpts ''5'' m [] False)) = Inr (Some 5)" for m
    by (simp add: parseFromRV_def ParseResourceVersion_def exListOpts_def)
  have q: "parseFromRV (listResourceVersion (exListOpts ''4613386018427387905'' m [] False)) =
      Inr (Some 4613386018427387905)" for m
    by (simp add: parseFromRV_def ParseResourceVersion_def exListOpts_def)
  have r: "resourceVersion (obj exSlotA) = Some 4613386018427387905"
    by (simp add: exSlotA_def exGot_def exOut_def)
  have h: "HasPrefix (key exSlotA) ''/p/''"
    by (simp add: HasPrefix_def exSlotA_def)
  have w: "map_sum id fst
     (walk [Some exSlotA] ''/p/'' ''NotOlderThan'' 5 (exPred []) 1 0 [] [] 5) = Inr [exGot]"
    unfolding walk_single_slot [OF h]
    by (simp add: listMatchRule_def AppendListItem_def exPred_def
        exSlotA_def exGot_def exOut_def rvOrZero_def ObjectResourceVersion_def)
  from w single_key_list_rule [where limit = 1 and lastKey = "[]" and lastRev = 5
      and l = exEmptyList, OF p exStore1_slot r h, of "''NotOlderThan''"]
    single_key_list_rule [where limit = 1 and lastKey = "[]" and lastRev = 5
      and l = exEmptyList, OF q exStore1_slot r h, of "''Exact''"]
  show ?thesis
    by (simp add: exListOpts_def exEmptyList_def AppendListItem_def exPred_def exSlotA_def)
qed

subsection \<open>GetList: the continue token of a full page\<close>

lemma walk_hasMore:
  "walk l kp m w p lim i items lk lr = Inr (items', lk', lr', True, remaining) \<Longrightarrow>
   int (length items) < lim \<Longrightarrow>
   \<exists>j v. i \<le> j \<and> j < length l - 1 \<and> l ! j = Some v \<and> items' \<noteq> [] \<and> last items' = obj v \<and>
     lk' = key v \<and> lr' = rvOrZero (obj v) \<and> int (length items') = lim \<and>
     remaining = int (length l - 1 - j)"
proof (induction l kp m w p lim i items lk lr rule: walk.induct)
  case (1 l kp m w p lim i items lk lr)
  note w = "1.prems"(1) and lt = "1.prems"(2)
  show ?case
  proof (cases "i < length l")
    case False
    with w show ?thesis by (simp add: walk.simps [of l])
  next
    case True
    show ?thesis
    proof (cases "l ! i")
      case None
      from lt have ne: "int (length items) \<noteq> lim" by simp
      from w True None ne
      have "walk l kp m w p lim (i + 1) items lk lr = Inr (items', lk', lr', True, remaining)"
        by (simp add: walk.simps [of l kp m w p lim i])
      from "1.IH"(1) [OF True None ne this lt] show ?thesis
        by (metis Suc_eq_plus1 Suc_leD)
    next
      case (Some v)
      show ?thesis
      proof (cases "HasPrefix (key v) kp")
        case False
        from w True Some False
        have "walk l kp m w p lim (i + 1) items (key v) (rvOrZero (obj v)) =
            Inr (items', lk', lr', True, remaining)"
          by (simp add: walk.simps [of l kp m w p lim i] Let_def)
        from "1.IH"(2) [OF True Some refl False this lt] show ?thesis
          by (metis Suc_eq_plus1 Suc_leD)
      next
        case pre: True
        from w True Some pre obtain inc where
          inc: "listMatchRule m (rvOrZero (obj v)) w = Inr inc"
          by (cases "listMatchRule m (rvOrZero (obj v)) w")
            (simp_all add: walk.simps [of l kp m w p lim i] Let_def)
        define items1 where
          "items1 = (if inc then AppendListItem items (obj v) (rvOrZero (obj v)) p else items)"
        show ?thesis
        proof (cases "int (length items1) = lim")
          case True
          from w \<open>i < length l\<close> Some pre inc True
          have r: "Inr (items1, key v, rvOrZero (obj v), stopAt l i) =
              (Inr (items', lk', lr', True, remaining) :: error + _)"
            by (simp add: walk.simps [of l kp m w p lim i] Let_def items1_def)
          then have s: "stopAt l i = (True, remaining)" and e: "items' = items1"
            "lk' = key v" "lr' = rvOrZero (obj v)" by simp_all
          from s have j: "i < length l - 1" "remaining = int (length l - 1 - i)"
            by (auto simp: stopAt_def split: if_splits)
          from True lt have "items1 \<noteq> items" by auto
          then have "items1 = items @ [obj v]"
            by (auto simp: items1_def AppendListItem_def split: if_splits)
          with j e Some True show ?thesis by auto
        next
          case False
          from w \<open>i < length l\<close> Some pre inc False
          have r: "walk l kp m w p lim (i + 1) items1 (key v) (rvOrZero (obj v)) =
              Inr (items', lk', lr', True, remaining)"
            by (simp add: walk.simps [of l kp m w p lim i] Let_def items1_def)
          have "length items1 \<le> length items + 1"
            by (simp add: items1_def AppendListItem_def)
          with lt False have lt1: "int (length items1) < lim" by linarith
          from "1.IH"(3) [OF \<open>i < length l\<close> Some refl _ inc items1_def False r lt1] pre
          show ?thesis
            by (metis Suc_eq_plus1 Suc_leD)
        qed
      qed
    qed
  qed
qed


lemma walk_no_more:
  "walk l kp m w p lim i items lk lr = Inr (items', lk', lr', False, remaining) \<Longrightarrow>
   int (length items) < lim \<Longrightarrow>
   remaining = 0 \<and>
   (int (length items') = lim \<longrightarrow>
      (\<exists>v. i < length l \<and> l ! (length l - 1) = Some v \<and> items' \<noteq> [] \<and> last items' = obj v))"
proof (induction l kp m w p lim i items lk lr rule: walk.induct)
  case (1 l kp m w p lim i items lk lr)
  note w = "1.prems"(1) and lt = "1.prems"(2)
  show ?case
  proof (cases "i < length l")
    case False
    with w lt show ?thesis by (auto simp: walk.simps [of l])
  next
    case True
    show ?thesis
    proof (cases "l ! i")
      case None
      from lt have ne: "int (length items) \<noteq> lim" by simp
      from w True None ne
      have "walk l kp m w p lim (i + 1) items lk lr = Inr (items', lk', lr', False, remaining)"
        by (simp add: walk.simps [of l kp m w p lim i])
      from "1.IH"(1) [OF True None ne this lt] True show ?thesis by auto
    next
      case (Some v)
      show ?thesis
      proof (cases "HasPrefix (key v) kp")
        case False
        from w True Some False
        have "walk l kp m w p lim (i + 1) items (key v) (rvOrZero (obj v)) =
            Inr (items', lk', lr', False, remaining)"
          by (simp add: walk.simps [of l kp m w p lim i] Let_def)
        from "1.IH"(2) [OF True Some refl False this lt] True show ?thesis by auto
      next
        case pre: True
        from w True Some pre obtain inc where
          inc: "listMatchRule m (rvOrZero (obj v)) w = Inr inc"
          by (cases "listMatchRule m (rvOrZero (obj v)) w")
            (simp_all add: walk.simps [of l kp m w p lim i] Let_def)
        define items1 where
          "items1 = (if inc then AppendListItem items (obj v) (rvOrZero (obj v)) p else items)"
        show ?thesis
        proof (cases "int (length items1) = lim")
          case True
          from w \<open>i < length l\<close> Some pre inc True
          have r: "Inr (items1, key v, rvOrZero (obj v), stopAt l i) =
              (Inr (items', lk', lr', False, remaining) :: error + _)"
            by (simp add: walk.simps [of l kp m w p lim i] Let_def items1_def)
          then have s: "stopAt l i = (False, remaining)" and e: "items' = items1" by simp_all
          from s \<open>i < length l\<close> have j: "i = length l - 1" "remaining = 0"
            by (auto simp: stopAt_def split: if_splits)
          from True lt have "items1 \<noteq> items" by auto
          then have "items1 = items @ [obj v]"
            by (auto simp: items1_def AppendListItem_def split: if_splits)
          with j e Some \<open>i < length l\<close> show ?thesis by auto
        next
          case False
          from w \<open>i < length l\<close> Some pre inc False
          have r: "walk l kp m w p lim (i + 1) items1 (key v) (rvOrZero (obj v)) =
              Inr (items', lk', lr', False, remaining)"
            by (simp add: walk.simps [of l kp m w p lim i] Let_def items1_def)
          have "length items1 \<le> length items + 1"
            by (simp add: items1_def AppendListItem_def)
          with lt False have lt1: "int (length items1) < lim" by linarith
          from "1.IH"(3) [OF \<open>i < length l\<close> Some refl _ inc items1_def False r lt1] pre
            \<open>i < length l\<close>
          show ?thesis by auto
        qed
      qed
    qed
  qed
qed

text \<open>
  C2. A recursive \<^verbatim>\<open>GetList\<close> with a positive limit, given a list holding fewer items than
  the limit, whose walk reaches the limit at a slot with further slots behind it (the loop
  returns \<^verbatim>\<open>hasMore\<close>; by \<open>walk_no_more\<close> it does not in any other way): the items
  are exactly \<open>limit\<close> many, the last of them is the object of that slot, the continue
  token is the encoding of that slot's key and of that object's revision, and the
  remaining item count, the number of slots behind it, is reported exactly when the
  predicate is empty.
\<close>

theorem GetList_continue_token:
  assumes "Recursive opts" and "0 < Limit (Predicate opts)"
    and "int (length (Items l)) < Limit (Predicate opts)"
    and "resolveStart D ms (listPrefix k) opts = Inr (withRV, returnedRV, start)"
    and "start < length (kvList ms)"
    and "walk (kvList ms) (listPrefix k) (ResourceVersionMatch opts) withRV (Predicate opts)
           (Limit (Predicate opts)) start (Items l) [] withRV =
         Inr (items, lastKey, lastRev, True, remaining)"
  shows "\<exists>j v. start \<le> j \<and> j < length (kvList ms) - 1 \<and> kvList ms ! j = Some v \<and>
           items \<noteq> [] \<and> last items = obj v \<and> int (length items) = Limit (Predicate opts) \<and>
           remaining = int (length (kvList ms) - 1 - j) \<and>
           GetList D E ms k opts l =
             (case E (key v) (listPrefix k) (rvOrZero (obj v)) of
                Inl e \<Rightarrow> Inl e
              | Inr tok \<Rightarrow>
                  Inr (l\<lparr>Items := items, ListRV := returnedRV, ContinueToken := tok,
                         RemainingItemCount :=
                           (if isEmpty (Predicate opts) then Some remaining else None)\<rparr>))"
proof -
  from walk_hasMore [OF assms(6,3)] obtain j v where
    j: "start \<le> j" "j < length (kvList ms) - 1" "kvList ms ! j = Some v" "items \<noteq> []"
      "last items = obj v" "lastKey = key v" "lastRev = rvOrZero (obj v)"
      "int (length items) = Limit (Predicate opts)" "remaining = int (length (kvList ms) - 1 - j)"
    by blast
  have "GetList D E ms k opts l =
      (case E (key v) (listPrefix k) (rvOrZero (obj v)) of
         Inl e \<Rightarrow> Inl e
       | Inr tok \<Rightarrow>
           Inr (l\<lparr>Items := items, ListRV := returnedRV, ContinueToken := tok,
                  RemainingItemCount :=
                    (if isEmpty (Predicate opts) then Some remaining else None)\<rparr>))"
    using assms(1,2,4,5,6) j(6,7)
    by (simp add: GetList_def Let_def pageLimit_def finishList_def UpdateList_def
        split: sum.splits)
  with j show ?thesis by blast
qed

lemma exStore3_list: "kvList exStore3 = [Some exSlotA, Some exSlotB, Some exSlotC]"
  by (simp add: exSlotA_def exSlotB_def exSlotC_def exGot_def exOut_def store3_defs exec_defs)

theorem GetList_continue_token_witness:
  "resolveStart exDecode exStore3 (listPrefix ''/p'') (exListOpts [] [] [] True) = Inr (0, 1, 0) \<and>
   walk (kvList exStore3) (listPrefix ''/p'') [] 0 (exPred []) 1 0 [] [] 0 =
     Inr ([exGot], ''/p/a'', 4613386018427387905, True, 2) \<and>
   (\<exists>j v. j < length (kvList exStore3) - 1 \<and> kvList exStore3 ! j = Some v \<and> exGot = obj v \<and>
      GetList exDecode exEncode exStore3 ''/p'' (exListOpts [] [] [] True) exEmptyList =
        (case exEncode (key v) (listPrefix ''/p'') (rvOrZero (obj v)) of
           Inl e \<Rightarrow> Inl e
         | Inr tok \<Rightarrow>
             Inr (exEmptyList\<lparr>Items := [exGot], ListRV := 1, ContinueToken := tok,
                    RemainingItemCount := Some 2\<rparr>))) \<and>
   GetList exDecode exEncode exStore3 ''/p'' (exListOpts [] [] [] True) exEmptyList = Inr exPage1"
proof -
  let ?o = "exListOpts [] [] [] True"
  have a: "Recursive ?o" and b: "0 < Limit (Predicate ?o)"
    and c: "int (length (Items exEmptyList)) < Limit (Predicate ?o)"
    by (simp_all add: exListOpts_def exPred_def exEmptyList_def)
  have d: "resolveStart exDecode exStore3 (listPrefix ''/p'') ?o = Inr (0, 1, 0)"
    by (simp add: resolveStart_def parseFromRV_def exListOpts_def exPred_def)
  have e: "0 < length (kvList exStore3)" by (simp add: exStore3_list)
  have w: "walk (kvList exStore3) (listPrefix ''/p'') [] 0 (exPred []) 1 0 [] [] 0 =
     Inr ([exGot], ''/p/a'', 4613386018427387905, True, 2)"
    by (simp add: exStore3_list walk.simps [of _ _ _ _ _ _ 0] listPrefix_def HasSuffix_def
        HasPrefix_def listMatchRule_def AppendListItem_def stopAt_def exPred_def exSlotA_def
        exGot_def exOut_def rvOrZero_def ObjectResourceVersion_def Let_def)
  have w': "walk (kvList exStore3) (listPrefix ''/p'') (ResourceVersionMatch ?o) 0 (Predicate ?o)
      (Limit (Predicate ?o)) 0 (Items exEmptyList) [] 0 =
     Inr ([exGot], ''/p/a'', 4613386018427387905, True, 2)"
    using w by (simp add: exListOpts_def exPred_def exEmptyList_def)
  have g: "GetList exDecode exEncode exStore3 ''/p'' ?o exEmptyList = Inr exPage1"
    using a d e w'
    by (simp add: GetList_def Let_def pageLimit_def finishList_def UpdateList_def exEncode_def
        exPage1_def exEmptyList_def exListOpts_def exPred_def listPrefix_def HasSuffix_def)
  from GetList_continue_token [where E = exEncode, OF a b c d e w'] d w g
  show ?thesis
    by (auto simp: exListOpts_def exPred_def)
qed

subsection \<open>One event for each mutation\<close>

text \<open>Every call of a mutating operation sends at most one event, only when it returns
  nil, and the event carries the revision the call took from the counter: the revisions of
  the events sent are the revisions assigned, in execution order.\<close>

lemma eventStep_fail [simp]: "eventStep evs r (ms, Inl e) = (sent ms = evs)"
  by (simp add: eventStep_def)

lemma eventStep_read [simp]: "sent ms = evs \<Longrightarrow> eventStep evs r (ms, Inr out)"
  by (simp add: eventStep_def)

lemma commitCreate_event:
  "sent ms = evs \<Longrightarrow> memoryRev ms = r \<Longrightarrow> eventStep evs r (commitCreate ms k w ob r)"
  by (simp add: commitCreate_def setSlot_def sendEvent_def DeepCopyObject_def eventStep_def
      split: sum.splits option.splits)

lemma commitUpdate_event:
  "sent ms = evs \<Longrightarrow> memoryRev ms = r \<Longrightarrow>
     eventStep evs r (commitUpdate ms k cur w currRv ob currObj r)"
  by (auto simp: commitUpdate_def setSlot_def sendEvent_def DeepCopyObject_def eventStep_def
      split: sum.splits option.splits if_splits)

lemma Create_event: "eventStep (sent ms) ((memoryRev ms + 1) mod 2 ^ 64) (Create p ms k ob)"
  by (simp add: Create_def DeepCopyObject_def reserveRevAndSlot_def Let_def commitCreate_event
      split: sum.splits option.splits)

lemma GuaranteedUpdate_event:
  "eventStep (sent ms) ((memoryRev ms + 1) mod 2 ^ 64)
     (GuaranteedUpdate ms k ignoreNotFound pre upd cached)"
  by (simp add: GuaranteedUpdate_def DeepCopyObject_def reserveRevAndSlot_def Let_def
      commitUpdate_event split: sum.splits option.splits prod.splits)

lemma CreateOrUpdate_event:
  "eventStep (sent ms) ((memoryRev ms + 1) mod 2 ^ 64) (CreateOrUpdate ms k ob mf)"
  by (simp add: CreateOrUpdate_def DeepCopyObject_def reserveRevAndSlot_def Let_def
      commitCreate_event commitUpdate_event split: sum.splits option.splits prod.splits)

lemma GetOrCreate_event:
  "eventStep (sent ms) ((memoryRev ms + 1) mod 2 ^ 64) (GetOrCreate ms k ob)"
  by (simp add: GetOrCreate_def DeepCopyObject_def reserveRevAndSlot_def Let_def
      commitCreate_event split: sum.splits option.splits prod.splits)

lemma CreateOrReplace_event:
  "eventStep (sent ms) ((memoryRev ms + 1) mod 2 ^ 64) (CreateOrReplace ms k ob)"
  by (simp add: CreateOrReplace_def DeepCopyObject_def reserveRevAndSlot_def Let_def
      commitCreate_event commitUpdate_event split: sum.splits option.splits prod.splits)

lemma Delete_event:
  "eventStep (sent ms) ((memoryRev ms + 1) mod 2 ^ 64) (Delete ms k out pre val cached)"
proof (cases "snd (Delete ms k out pre val cached)")
  case (Inl e)
  obtain ms1 where d: "Delete ms k out pre val cached = (ms1, Inl e)"
    using Inl by (cases "Delete ms k out pre val cached") auto
  have "sent ms1 = sent ms"
    using d
    by (auto simp: Delete_def deleteRev_def kvs_del_def setSlot_def DeepCopyObject_def Let_def
        split: sum.splits option.splits if_splits prod.splits)
  with d show ?thesis by simp
next
  case (Inr out1)
  obtain ms1 where d: "Delete ms k out pre val cached = (ms1, Inr out1)"
    using Inr by (cases "Delete ms k out pre val cached") auto
  from Delete_success [OF d] obtain e where
    e: "sent ms1 = sent ms @ [e]" "evRev e = memoryRev ms1" by blast
  obtain slot where g: "kvs_get (kvs ms) (splitKey k) = Some slot"
    using Delete_success [OF d] by blast
  have "memoryRev ms1 = (memoryRev ms + 1) mod 2 ^ 64"
    using d g
    by (auto simp: Delete_def deleteRev_def kvs_del_def setSlot_def sendEvent_def
        DeepCopyObject_def Let_def split: sum.splits option.splits if_splits)
  with d e show ?thesis by (simp add: eventStep_def)
qed

lemma applyMutation_event:
  "eventStep (sent ms) ((memoryRev ms + 1) mod 2 ^ 64) (applyMutation ms m)"
proof (cases m)
  case (MCreate p k ob)
  then show ?thesis using Create_event [of ms p k ob] by simp
next
  case (MDelete k out pre val cached)
  then show ?thesis using Delete_event [of ms k out pre val cached] by simp
next
  case (MGuaranteedUpdate k ignoreNotFound pre upd cached)
  then show ?thesis using GuaranteedUpdate_event [of ms k ignoreNotFound pre upd cached] by simp
next
  case (MCreateOrUpdate k ob mf)
  then show ?thesis using CreateOrUpdate_event [of ms k ob mf] by simp
next
  case (MCreateOrReplace k ob)
  then show ?thesis using CreateOrReplace_event [of ms k ob] by simp
next
  case (MGetOrCreate k ob)
  then show ?thesis using GetOrCreate_event [of ms k ob] by simp
qed

end
